theory Spec2Isabelle
  imports Main
begin

section \<open>The Eisenhower todo matrix of \<^verbatim>\<open>lib/todo-tui.js\<close>\<close>

text \<open>
  The store keeps todo items in four sequences, one per quadrant of the
  priority/urgency matrix, in one JSON document per thoughts directory.
  Strings are \<^typ>\<open>string\<close>; a character stands for one code unit below 256.
  A timestamp is the instant that the ISO-8601 text of the source denotes,
  counted in milliseconds, so that the order of timestamps is the order of
  \<^typ>\<open>nat\<close>. Every reading of the clock within one operation is the
  parameter \<open>now\<close> of that operation.
\<close>

subsection \<open>Data model\<close>

type_synonym timestamp = nat

record todo =
  id' :: string
  title :: string
  description :: string
  priority :: string
  urgency :: string
  completed :: bool
  createdAt :: timestamp
  completedAt :: "timestamp option"
  tags :: "string list"
  links :: "string list"
  metadata :: "(string \<times> string) list"

text \<open>The keys of the matrix object that hold sequences of items.\<close>

datatype quadrant =
  Important_Urgent | Important_Not_Urgent | Not_Important_Urgent | Not_Important_Not_Urgent

record stats =
  total_s :: nat
  completed_s :: nat
  active_s :: nat

record matrix =
  important_urgent :: "todo list"
  important_not_urgent :: "todo list"
  not_important_urgent :: "todo list"
  not_important_not_urgent :: "todo list"
  stats :: stats
  lastUpdated :: timestamp

text \<open>\<open>matrix[quadrant]\<close> as a read and as the target of a mutation.\<close>

fun getq :: "matrix \<Rightarrow> quadrant \<Rightarrow> todo list" where
  "getq m Important_Urgent = important_urgent m"
| "getq m Important_Not_Urgent = important_not_urgent m"
| "getq m Not_Important_Urgent = not_important_urgent m"
| "getq m Not_Important_Not_Urgent = not_important_not_urgent m"

fun setq :: "matrix \<Rightarrow> quadrant \<Rightarrow> todo list \<Rightarrow> matrix" where
  "setq m Important_Urgent xs = m\<lparr>important_urgent := xs\<rparr>"
| "setq m Important_Not_Urgent xs = m\<lparr>important_not_urgent := xs\<rparr>"
| "setq m Not_Important_Urgent xs = m\<lparr>not_important_urgent := xs\<rparr>"
| "setq m Not_Important_Not_Urgent xs = m\<lparr>not_important_not_urgent := xs\<rparr>"

text \<open>
  The object spread into an existing item by \<open>updateTodo\<close>: every key may be
  present or absent. \<open>completedAt\<close> may be present with the value \<open>null\<close>.
\<close>

record updates =
  u_id :: "string option"
  u_title :: "string option"
  u_description :: "string option"
  u_priority :: "string option"
  u_urgency :: "string option"
  u_completed :: "bool option"
  u_createdAt :: "timestamp option"
  u_completedAt :: "timestamp option option"
  u_tags :: "string list option"
  u_links :: "string list option"
  u_metadata :: "(string \<times> string) list option"

text \<open>The \<open>options\<close> object of \<open>createTodo\<close>.\<close>

record options =
  o_id :: "string option"
  o_description :: "string option"
  o_priority :: "string option"
  o_urgency :: "string option"
  o_completed :: "bool option"
  o_createdAt :: "timestamp option"
  o_completedAt :: "timestamp option"
  o_tags :: "string list option"
  o_links :: "string list option"
  o_metadata :: "(string \<times> string) list option"

text \<open>
  What a throw of the source carries: the \<open>Error\<close> "Todo with ID ... not found"
  with the identifier in its message, and the \<open>TypeError\<close> of reading a
  property of \<open>undefined\<close>.
\<close>

datatype error = NotFound string | TypeError

text \<open>
  The file \<^verbatim>\<open>.todos/todo-matrix.json\<close>: absent, or text that \<open>JSON.parse\<close>
  rejects, or the text of a matrix. The console is the list of warnings
  written so far.
\<close>

datatype todo_file = Garbage string | Json matrix

record store =
  todoFile :: "todo_file option"
  warnings :: "string list"

subsection \<open>Strings and numbers of the host language\<close>

definition isWhiteSpace :: "char \<Rightarrow> bool" where
  "isWhiteSpace c \<longleftrightarrow>
     c \<in> set [CHR 0x09, CHR 0x0A, CHR 0x0B, CHR 0x0C, CHR 0x0D, CHR 0x20, CHR 0xA0]"

definition trim :: "string \<Rightarrow> string" where
  "trim s = rev (dropWhile isWhiteSpace (rev (dropWhile isWhiteSpace s)))"

definition isDigit :: "char \<Rightarrow> bool" where
  "isDigit c \<longleftrightarrow> c \<in> set ''0123456789''"

definition digitVal :: "char \<Rightarrow> nat" where
  "digitVal c = (case map_of (zip ''0123456789'' [0 ..< 10]) c of Some d \<Rightarrow> d | None \<Rightarrow> 0)"

definition digitChar :: "nat \<Rightarrow> char" where
  "digitChar d = ''0123456789'' ! d"

definition digitsToNat :: "string \<Rightarrow> nat" where
  "digitsToNat ds = foldl (\<lambda>acc c. 10 * acc + digitVal c) 0 ds"

text \<open>
  \<open>parseInt(s, 10)\<close>: leading white space is skipped, one sign is read, then
  the longest run of decimal digits; \<open>None\<close> is \<open>NaN\<close>.
\<close>

definition parseInt :: "string \<Rightarrow> int option" where
  "parseInt s =
    (let s1 = dropWhile isWhiteSpace s;
         sign = (case s1 of c # _ \<Rightarrow> if c = CHR ''-'' then - 1 else (1::int) | [] \<Rightarrow> 1);
         s2 = (case s1 of c # r \<Rightarrow> if c = CHR ''-'' \<or> c = CHR ''+'' then r else s1 | [] \<Rightarrow> s1);
         ds = takeWhile isDigit s2
     in if ds = [] then None else Some (sign * int (digitsToNat ds)))"

text \<open>The decimal text of a number, as template interpolation writes it.\<close>

fun natToString :: "nat \<Rightarrow> string" where
  "natToString n =
    (if n < 10 then [digitChar n] else natToString (n div 10) @ [digitChar (n mod 10)])"

declare natToString.simps [simp del]

text \<open>
  \<open>toUpperCase\<close> on the letters a to z; every other character is kept.
\<close>

definition toUpperChar :: "char \<Rightarrow> char" where
  "toUpperChar c =
    (case map_of (zip ''abcdefghijklmnopqrstuvwxyz'' ''ABCDEFGHIJKLMNOPQRSTUVWXYZ'') c of
       Some u \<Rightarrow> u | None \<Rightarrow> c)"

definition toUpperCase :: "string \<Rightarrow> string" where
  "toUpperCase s = map toUpperChar s"

text \<open>\<open>Array.prototype.findIndex\<close>; \<open>None\<close> is the result \<open>-1\<close>.\<close>

fun findIndex :: "('a \<Rightarrow> bool) \<Rightarrow> 'a list \<Rightarrow> nat option" where
  "findIndex P [] = None"
| "findIndex P (x # xs) = (if P x then Some 0 else map_option Suc (findIndex P xs))"

text \<open>\<open>xs.splice(index, 1)\<close>.\<close>

definition splice1 :: "nat \<Rightarrow> 'a list \<Rightarrow> 'a list" where
  "splice1 index xs = take index xs @ drop (Suc index) xs"

subsection \<open>Quadrants and item construction\<close>

definition getQuadrantKey :: "todo \<Rightarrow> quadrant" where
  "getQuadrantKey t =
    (let isImportant = (priority t = ''high'');
         isUrgent = (urgency t = ''urgent'')
     in if isImportant \<and> isUrgent then Important_Urgent
        else if isImportant \<and> \<not> isUrgent then Important_Not_Urgent
        else if \<not> isImportant \<and> isUrgent then Not_Important_Urgent
        else Not_Important_Not_Urgent)"

text \<open>
  \<open>a || b\<close> on an optional string: an absent key and the empty string are
  both falsy.
\<close>

definition orElse :: "string option \<Rightarrow> string \<Rightarrow> string" where
  "orElse a b = (case a of Some s \<Rightarrow> if s = [] then b else s | None \<Rightarrow> b)"

text \<open>\<open>uuid\<close> is the value that \<open>uuidv4()\<close> returns at this call.\<close>

definition createTodo :: "timestamp \<Rightarrow> string \<Rightarrow> string \<Rightarrow> options \<Rightarrow> todo" where
  "createTodo now uuid ttl opts =
    \<lparr> id' = orElse (o_id opts) uuid,
      title = trim ttl,
      description = orElse (o_description opts) [],
      priority = orElse (o_priority opts) ''low'',
      urgency = orElse (o_urgency opts) ''not-urgent'',
      completed = (case o_completed opts of Some b \<Rightarrow> b | None \<Rightarrow> False),
      createdAt = (case o_createdAt opts of Some t \<Rightarrow> t | None \<Rightarrow> now),
      completedAt = o_completedAt opts,
      tags = (case o_tags opts of Some ts \<Rightarrow> ts | None \<Rightarrow> []),
      links = (case o_links opts of Some ls \<Rightarrow> ls | None \<Rightarrow> []),
      metadata = (case o_metadata opts of Some kv \<Rightarrow> kv | None \<Rightarrow> []) \<rparr>"

subsection \<open>Loading and saving\<close>

definition defaultMatrix :: "timestamp \<Rightarrow> matrix" where
  "defaultMatrix now =
    \<lparr> important_urgent = [], important_not_urgent = [],
      not_important_urgent = [], not_important_not_urgent = [],
      stats = \<lparr> total_s = 0, completed_s = 0, active_s = 0 \<rparr>,
      lastUpdated = now \<rparr>"

definition loadWarning :: string where
  "loadWarning = ''Error loading todo matrix, creating new one:''"

text \<open>
  The result is the matrix returned and the store left behind. A parse
  error is caught and logged, and control falls through to the write of the
  default document, as it does when the file is absent.
\<close>

definition loadTodoMatrix :: "timestamp \<Rightarrow> store \<Rightarrow> matrix \<times> store" where
  "loadTodoMatrix now st =
    (case todoFile st of
       Some (Json m) \<Rightarrow> (m, st)
     | Some (Garbage txt) \<Rightarrow>
         (defaultMatrix now,
          st\<lparr>todoFile := Some (Json (defaultMatrix now)),
             warnings := warnings st @ [loadWarning]\<rparr>)
     | None \<Rightarrow>
         (defaultMatrix now, st\<lparr>todoFile := Some (Json (defaultMatrix now))\<rparr>))"

definition allTodos :: "matrix \<Rightarrow> todo list" where
  "allTodos m =
    important_urgent m @ important_not_urgent m @
    not_important_urgent m @ not_important_not_urgent m"

text \<open>
  \<open>saveTodoMatrix\<close> mutates the matrix it is given (statistics and time)
  before writing it; the result is that matrix and the store.
\<close>

definition saveTodoMatrix :: "timestamp \<Rightarrow> store \<Rightarrow> matrix \<Rightarrow> matrix \<times> store" where
  "saveTodoMatrix now st m =
    (let m' = m\<lparr>stats := \<lparr> total_s = length (allTodos m),
                            completed_s = length (filter completed (allTodos m)),
                            active_s = length (filter (\<lambda>t. \<not> completed t) (allTodos m)) \<rparr>,
                 lastUpdated := now\<rparr>
     in (m', st\<lparr>todoFile := Some (Json m')\<rparr>))"

definition addTodo :: "timestamp \<Rightarrow> store \<Rightarrow> todo \<Rightarrow> matrix \<times> store" where
  "addTodo now st t =
    (let (m, st1) = loadTodoMatrix now st;
         quadrant = getQuadrantKey t
     in saveTodoMatrix now st1 (setq m quadrant (getq m quadrant @ [t])))"

subsection \<open>Display identifiers\<close>

text \<open>The test \<^verbatim>\<open>/^[A-D]\d+$/i\<close>: one letter, then one or more digits, nothing else.\<close>

definition isUserFriendlyId :: "string \<Rightarrow> bool" where
  "isUserFriendlyId s =
    (case s of [] \<Rightarrow> False
     | c # ds \<Rightarrow> c \<in> set ''ABCDabcd'' \<and> ds \<noteq> [] \<and> list_all isDigit ds)"

definition QUADRANT_PREFIX_MAP :: "quadrant \<rightharpoonup> char" where
  "QUADRANT_PREFIX_MAP =
    [Important_Urgent \<mapsto> CHR ''A'', Important_Not_Urgent \<mapsto> CHR ''B'',
     Not_Important_Urgent \<mapsto> CHR ''C'', Not_Important_Not_Urgent \<mapsto> CHR ''D'']"

text \<open>The key is the result of \<open>charAt(0)\<close>: a string of one character, or none.\<close>

definition QUADRANT_KEY_MAP :: "string \<rightharpoonup> quadrant" where
  "QUADRANT_KEY_MAP =
    [''A'' \<mapsto> Important_Urgent, ''B'' \<mapsto> Important_Not_Urgent,
     ''C'' \<mapsto> Not_Important_Urgent, ''D'' \<mapsto> Not_Important_Not_Urgent]"

definition generateDisplayId :: "matrix \<Rightarrow> todo \<Rightarrow> string" where
  "generateDisplayId m t =
    (let quadrant = getQuadrantKey t in
     case QUADRANT_PREFIX_MAP quadrant of
       None \<Rightarrow> take 8 (id' t)
     | Some prefix \<Rightarrow>
         (case findIndex (\<lambda>x. id' x = id' t) (getq m quadrant) of
            Some position \<Rightarrow> prefix # natToString (position + 1)
          | None \<Rightarrow> take 8 (id' t)))"

text \<open>
  \<open>index\<close> is a number of the host language: \<open>None\<close> is \<open>NaN\<close>, for which both
  comparisons are false. Reading an array at \<open>NaN\<close> or past its end gives
  \<open>undefined\<close>, and \<open>.id\<close> of that throws. The result \<open>Inr None\<close> is \<open>null\<close>.
\<close>

definition resolveUserFriendlyId :: "matrix \<Rightarrow> string \<Rightarrow> error + string option" where
  "resolveUserFriendlyId m userFriendlyId =
    (let u = toUpperCase userFriendlyId;
         prefix = take 1 u;
         index = map_option (\<lambda>n. n - 1) (parseInt (drop 1 u))
     in if (case index of Some i \<Rightarrow> i < 0 | None \<Rightarrow> False) then Inr None
        else case QUADRANT_KEY_MAP prefix of
          None \<Rightarrow> Inr None
        | Some quadrant \<Rightarrow>
            if (case index of Some i \<Rightarrow> i \<ge> int (length (getq m quadrant)) | None \<Rightarrow> False)
            then Inr None
            else (case index of
                    None \<Rightarrow> Inl TypeError
                  | Some i \<Rightarrow>
                      if nat i < length (getq m quadrant)
                      then Inr (Some (id' (getq m quadrant ! nat i)))
                      else Inl TypeError))"

text \<open>
  The block that opens \<open>updateTodo\<close>, \<open>toggleTodo\<close> and \<open>deleteTodo\<close>: an
  identifier of display shape is replaced by the id it resolves to; \<open>null\<close>
  and the empty string are falsy and throw.
\<close>

definition resolveTodoId :: "matrix \<Rightarrow> string \<Rightarrow> error + string" where
  "resolveTodoId m todoId =
    (if isUserFriendlyId todoId then
       (case resolveUserFriendlyId m todoId of
          Inl e \<Rightarrow> Inl e
        | Inr None \<Rightarrow> Inl (NotFound todoId)
        | Inr (Some uuid) \<Rightarrow> if uuid = [] then Inl (NotFound todoId) else Inr uuid)
     else Inr todoId)"

subsection \<open>Update, toggle, delete\<close>

text \<open>The four calls of each per-quadrant helper, in the order of the source.\<close>

definition quadrantOrder :: "quadrant list" where
  "quadrantOrder =
    [Important_Urgent, Important_Not_Urgent, Not_Important_Urgent, Not_Important_Not_Urgent]"

text \<open>\<open>{ ...oldTodo, ...updates }\<close>: a key present in \<open>updates\<close> wins.\<close>

definition spread :: "todo \<Rightarrow> updates \<Rightarrow> todo" where
  "spread t u =
    \<lparr> id' = (case u_id u of Some v \<Rightarrow> v | None \<Rightarrow> id' t),
      title = (case u_title u of Some v \<Rightarrow> v | None \<Rightarrow> title t),
      description = (case u_description u of Some v \<Rightarrow> v | None \<Rightarrow> description t),
      priority = (case u_priority u of Some v \<Rightarrow> v | None \<Rightarrow> priority t),
      urgency = (case u_urgency u of Some v \<Rightarrow> v | None \<Rightarrow> urgency t),
      completed = (case u_completed u of Some v \<Rightarrow> v | None \<Rightarrow> completed t),
      createdAt = (case u_createdAt u of Some v \<Rightarrow> v | None \<Rightarrow> createdAt t),
      completedAt = (case u_completedAt u of Some v \<Rightarrow> v | None \<Rightarrow> completedAt t),
      tags = (case u_tags u of Some v \<Rightarrow> v | None \<Rightarrow> tags t),
      links = (case u_links u of Some v \<Rightarrow> v | None \<Rightarrow> links t),
      metadata = (case u_metadata u of Some v \<Rightarrow> v | None \<Rightarrow> metadata t) \<rparr>"

text \<open>The spread followed by the completion rule of \<open>updateInQuadrant\<close>.\<close>

definition mergeTodo :: "timestamp \<Rightarrow> todo \<Rightarrow> updates \<Rightarrow> todo" where
  "mergeTodo now oldTodo u =
    (let updatedTodo = spread oldTodo u in
     if u_completed u = Some True \<and> \<not> completed oldTodo
     then updatedTodo\<lparr>completedAt := Some now\<rparr>
     else if u_completed u = Some False
     then updatedTodo\<lparr>completedAt := None\<rparr>
     else updatedTodo)"

text \<open>The state of each helper is the matrix and the flag \<open>found\<close>.\<close>

definition updateInQuadrant ::
  "timestamp \<Rightarrow> string \<Rightarrow> updates \<Rightarrow> quadrant \<Rightarrow> matrix \<times> bool \<Rightarrow> matrix \<times> bool" where
  "updateInQuadrant now todoId u quadrant s =
    (let m = fst s in
     case findIndex (\<lambda>t. id' t = todoId) (getq m quadrant) of
       None \<Rightarrow> s
     | Some index \<Rightarrow>
         (let oldTodo = getq m quadrant ! index;
              updatedTodo = mergeTodo now oldTodo u;
              newQuadrant = getQuadrantKey updatedTodo
          in if newQuadrant \<noteq> quadrant
             then (let m1 = setq m quadrant (splice1 index (getq m quadrant))
                   in (setq m1 newQuadrant (getq m1 newQuadrant @ [updatedTodo]), True))
             else (setq m quadrant ((getq m quadrant)[index := updatedTodo]), True)))"

definition updateTodo ::
  "timestamp \<Rightarrow> store \<Rightarrow> string \<Rightarrow> updates \<Rightarrow> (error + matrix) \<times> store" where
  "updateTodo now st todoId u =
    (let (m, st1) = loadTodoMatrix now st in
     case resolveTodoId m todoId of
       Inl e \<Rightarrow> (Inl e, st1)
     | Inr uuid \<Rightarrow>
         (let (m', found) = foldl (\<lambda>s q. updateInQuadrant now uuid u q s) (m, False) quadrantOrder
          in if \<not> found then (Inl (NotFound uuid), st1)
             else (let (m'', st2) = saveTodoMatrix now st1 m' in (Inr m'', st2))))"

definition toggleInQuadrant ::
  "timestamp \<Rightarrow> string \<Rightarrow> quadrant \<Rightarrow> matrix \<times> bool \<Rightarrow> matrix \<times> bool" where
  "toggleInQuadrant now todoId quadrant s =
    (let m = fst s in
     case findIndex (\<lambda>t. id' t = todoId) (getq m quadrant) of
       None \<Rightarrow> s
     | Some index \<Rightarrow>
         (let t = getq m quadrant ! index;
              t1 = t\<lparr>completed := \<not> completed t\<rparr>;
              t2 = (if completed t1 then t1\<lparr>completedAt := Some now\<rparr>
                    else t1\<lparr>completedAt := None\<rparr>)
          in (setq m quadrant ((getq m quadrant)[index := t2]), True)))"

definition toggleTodo :: "timestamp \<Rightarrow> store \<Rightarrow> string \<Rightarrow> (error + matrix) \<times> store" where
  "toggleTodo now st todoId =
    (let (m, st1) = loadTodoMatrix now st in
     case resolveTodoId m todoId of
       Inl e \<Rightarrow> (Inl e, st1)
     | Inr uuid \<Rightarrow>
         (let (m', found) = foldl (\<lambda>s q. toggleInQuadrant now uuid q s) (m, False) quadrantOrder
          in if \<not> found then (Inl (NotFound uuid), st1)
             else (let (m'', st2) = saveTodoMatrix now st1 m' in (Inr m'', st2))))"

definition deleteFromQuadrant :: "string \<Rightarrow> quadrant \<Rightarrow> matrix \<times> bool \<Rightarrow> matrix \<times> bool" where
  "deleteFromQuadrant todoId quadrant s =
    (let m = fst s in
     case findIndex (\<lambda>t. id' t = todoId) (getq m quadrant) of
       None \<Rightarrow> s
     | Some index \<Rightarrow> (setq m quadrant (splice1 index (getq m quadrant)), True))"

definition deleteTodo :: "timestamp \<Rightarrow> store \<Rightarrow> string \<Rightarrow> (error + matrix) \<times> store" where
  "deleteTodo now st todoId =
    (let (m, st1) = loadTodoMatrix now st in
     case resolveTodoId m todoId of
       Inl e \<Rightarrow> (Inl e, st1)
     | Inr uuid \<Rightarrow>
         (let (m', found) = foldl (\<lambda>s q. deleteFromQuadrant uuid q s) (m, False) quadrantOrder
          in if \<not> found then (Inl (NotFound uuid), st1)
             else (let (m'', st2) = saveTodoMatrix now st1 m' in (Inr m'', st2))))"

text \<open>The default value of the parameter \<open>options\<close>: the empty object.\<close>

definition emptyOptions :: options where
  "emptyOptions =
    \<lparr> o_id = None, o_description = None, o_priority = None, o_urgency = None,
      o_completed = None, o_createdAt = None, o_completedAt = None, o_tags = None,
      o_links = None, o_metadata = None \<rparr>"

subsection \<open>The two invariants of the data model\<close>

definition consistent :: "matrix \<Rightarrow> bool" where
  "consistent m =
    list_all (\<lambda>q. list_all (\<lambda>t. getQuadrantKey t = q) (getq m q)) quadrantOrder"

definition uniqueIds :: "matrix \<Rightarrow> bool" where
  "uniqueIds m = distinct (map id' (allTodos m))"

subsection \<open>A small matrix for concrete runs\<close>

definition sampleTodo :: "string \<Rightarrow> string \<Rightarrow> string \<Rightarrow> todo" where
  "sampleTodo i p u =
    \<lparr> id' = i, title = ''task'', description = [], priority = p, urgency = u,
      completed = False, createdAt = 5, completedAt = None, tags = [], links = [],
      metadata = [] \<rparr>"

definition sampleMatrix :: matrix where
  "sampleMatrix =
    \<lparr> important_urgent =
        [sampleTodo ''id-1'' ''high'' ''urgent'', sampleTodo ''id-2'' ''high'' ''urgent'',
         sampleTodo ''id-3'' ''high'' ''urgent''],
      important_not_urgent = [sampleTodo ''id-4'' ''high'' ''not-urgent''],
      not_important_urgent = [sampleTodo ''id-5'' ''low'' ''urgent''],
      not_important_not_urgent = [sampleTodo ''id-6'' ''low'' ''not-urgent''],
      stats = \<lparr> total_s = 6, completed_s = 0, active_s = 6 \<rparr>,
      lastUpdated = 5 \<rparr>"

definition sampleStore :: store where
  "sampleStore = \<lparr> todoFile = Some (Json sampleMatrix), warnings = [] \<rparr>"

text \<open>What a pass of \<open>toggleInQuadrant\<close> leaves in a sequence.\<close>

definition toggledSeq :: "timestamp \<Rightarrow> string \<Rightarrow> todo list \<Rightarrow> todo list" where
  "toggledSeq now uid xs =
    (case findIndex (\<lambda>t. id' t = uid) xs of
       None \<Rightarrow> xs
     | Some i \<Rightarrow> xs[i := (xs ! i)\<lparr>completed := \<not> completed (xs ! i),
                               completedAt := if completed (xs ! i) then None else Some now\<rparr>])"

text \<open>A store whose matrix holds one item, in the sequence of its quadrant.\<close>

definition soloStore :: "todo \<Rightarrow> store" where
  "soloStore t =
    \<lparr> todoFile = Some (Json (setq (defaultMatrix 0) (getQuadrantKey t) [t])), warnings = [] \<rparr>"

definition doneTodo :: todo where
  "doneTodo = (sampleTodo ''id-9'' ''low'' ''not-urgent'')\<lparr>completed := True, completedAt := Some 6\<rparr>"

text \<open>What a pass of \<open>deleteFromQuadrant\<close> leaves in a sequence.\<close>

definition deletedSeq :: "string \<Rightarrow> todo list \<Rightarrow> todo list" where
  "deletedSeq uid xs =
    (case findIndex (\<lambda>t. id' t = uid) xs of None \<Rightarrow> xs | Some i \<Rightarrow> splice1 i xs)"

text \<open>
  The identifier names no item: its display form does not resolve, or the id
  it stands for is carried by no item of the four sequences.
\<close>

definition resolvesToNoItem :: "matrix \<Rightarrow> string \<Rightarrow> bool" where
  "resolvesToNoItem m todoId =
    (case resolveTodoId m todoId of
       Inl e \<Rightarrow> True
     | Inr uuid \<Rightarrow>
         list_all (\<lambda>q. findIndex (\<lambda>t. id' t = uuid) (getq m q) = None) quadrantOrder)"

text \<open>The patch that names no key: \<open>{}\<close>.\<close>

definition emptyUpdates :: updates where
  "emptyUpdates =
    \<lparr> u_id = None, u_title = None, u_description = None, u_priority = None,
      u_urgency = None, u_completed = None, u_createdAt = None, u_completedAt = None,
      u_tags = None, u_links = None, u_metadata = None \<rparr>"

text \<open>The four mutating operations, and a run of them from a store.\<close>

datatype operation = Add todo | Update string updates | Toggle string | Delete string

definition perform :: "timestamp \<Rightarrow> operation \<Rightarrow> store \<Rightarrow> store" where
  "perform now op st =
    (case op of
       Add t \<Rightarrow> snd (addTodo now st t)
     | Update todoId u \<Rightarrow> snd (updateTodo now st todoId u)
     | Toggle todoId \<Rightarrow> snd (toggleTodo now st todoId)
     | Delete todoId \<Rightarrow> snd (deleteTodo now st todoId))"

text \<open>Each step of a run carries the clock reading of its operation.\<close>

definition run :: "(timestamp \<times> operation) list \<Rightarrow> store \<Rightarrow> store" where
  "run ops st = foldl (\<lambda>s step. perform (fst step) (snd step) s) st ops"

definition emptyStore :: store where
  "emptyStore = \<lparr> todoFile = None, warnings = [] \<rparr>"

definition storeConsistent :: "store \<Rightarrow> bool" where
  "storeConsistent st =
    (case todoFile st of Some (Json m) \<Rightarrow> consistent m | _ \<Rightarrow> True)"

text \<open>A run from the empty store, and the matrix it leaves in the file.\<close>

definition sampleRun :: "(timestamp \<times> operation) list" where
  "sampleRun =
    [(1, Add (sampleTodo ''u-1'' ''high'' ''urgent'')),
     (2, Add (sampleTodo ''u-2'' ''high'' ''urgent'')),
     (3, Add (sampleTodo ''u-3'' ''low'' ''not-urgent'')),
     (4, Update ''A1'' (emptyUpdates\<lparr>u_priority := Some ''low''\<rparr>)),
     (5, Toggle ''u-2''),
     (6, Delete ''D1'')]"

definition sampleFinal :: matrix where
  "sampleFinal =
    \<lparr> important_urgent =
        [(sampleTodo ''u-2'' ''high'' ''urgent'')\<lparr>completed := True, completedAt := Some 5\<rparr>],
      important_not_urgent = [],
      not_important_urgent = [sampleTodo ''u-1'' ''low'' ''urgent''],
      not_important_not_urgent = [],
      stats = \<lparr> total_s = 2, completed_s = 1, active_s = 1 \<rparr>,
      lastUpdated = 6 \<rparr>"

text \<open>
  In the four calls of the source, the quadrant \<open>q'\<close> is visited after \<open>q\<close>.
\<close>

definition visitedAfter :: "quadrant \<Rightarrow> quadrant \<Rightarrow> bool" where
  "visitedAfter q q' \<longleftrightarrow> q' \<in> set (drop 1 (dropWhile (\<lambda>x. x \<noteq> q) quadrantOrder))"

text \<open>
  The matrix that the four calls of \<open>updateInQuadrant\<close> leave when the id is
  carried in one sequence only, at first index \<open>i\<close> of quadrant \<open>q\<close>. An item
  moved to a quadrant that is visited later is found there again, and merged
  with the patch a second time when it still carries the id.
\<close>

definition movedItem :: "timestamp \<Rightarrow> string \<Rightarrow> updates \<Rightarrow> quadrant \<Rightarrow> todo \<Rightarrow> todo" where
  "movedItem now uid u q oldTodo =
    (let merged = mergeTodo now oldTodo u
     in if visitedAfter q (getQuadrantKey merged) \<and> id' merged = uid
        then mergeTodo now merged u else merged)"

definition updatedMatrix ::
  "timestamp \<Rightarrow> string \<Rightarrow> updates \<Rightarrow> quadrant \<Rightarrow> nat \<Rightarrow> matrix \<Rightarrow> matrix" where
  "updatedMatrix now uid u q i m =
    (let merged = mergeTodo now (getq m q ! i) u; nq = getQuadrantKey merged
     in if nq = q then setq m q ((getq m q)[i := merged])
        else setq (setq m q (splice1 i (getq m q))) nq
               (getq m nq @ [movedItem now uid u q (getq m q ! i)]))"

text \<open>
  A patch that completes an item, names a \<open>completedAt\<close> of its own and sets
  the priority.
\<close>

definition completingPatch :: "string \<Rightarrow> updates" where
  "completingPatch p =
    emptyUpdates\<lparr>u_priority := Some p, u_completed := Some True, u_completedAt := Some (Some 3)\<rparr>"

section \<open>Basic facts\<close>

lemma getq_setq: "getq (setq m q xs) q' = (if q' = q then xs else getq m q')"
  by (cases q; cases q'; simp)

lemma findIndex_Some: "findIndex P xs = Some i \<Longrightarrow> i < length xs \<and> P (xs ! i) \<and> (\<forall>j<i. \<not> P (xs ! j))"
proof (induction xs arbitrary: i)
  case Nil then show ?case by simp
next
  case (Cons x xs)
  show ?case
  proof (cases "P x")
    case True with Cons.prems show ?thesis by simp
  next
    case False
    with Cons.prems obtain k where k: "findIndex P xs = Some k" "i = Suc k" by auto
    from Cons.IH[OF k(1)] False k(2) show ?thesis by (auto simp: less_Suc_eq_0_disj)
  qed
qed

lemma findIndex_None: "findIndex P xs = None \<longleftrightarrow> (\<forall>x\<in>set xs. \<not> P x)"
  by (induction xs) auto

lemma findIndex_append: "findIndex P (xs @ ys) = (case findIndex P xs of Some i \<Rightarrow> Some i | None \<Rightarrow> map_option (\<lambda>k. length xs + k) (findIndex P ys))"
proof (induction xs)
  case Nil
  show ?case by (cases "findIndex P ys") simp_all
next
  case (Cons x xs)
  then show ?case by (cases "findIndex P xs"; cases "findIndex P ys") simp_all
qed

lemma below_ten:
  "(d::nat) < 10 \<Longrightarrow> d = 0 \<or> d = 1 \<or> d = 2 \<or> d = 3 \<or> d = 4 \<or> d = 5 \<or> d = 6 \<or> d = 7 \<or> d = 8 \<or> d = 9"
  by arith

lemma isDigit_digitChar: "d < 10 \<Longrightarrow> isDigit (digitChar d)"
  by (drule below_ten) (elim disjE; simp add: isDigit_def digitChar_def)

lemma digitVal_digitChar: "d < 10 \<Longrightarrow> digitVal (digitChar d) = d"
  by (drule below_ten) (elim disjE; simp add: digitVal_def digitChar_def upt_rec)

lemma natToString_digits: "list_all isDigit (natToString n) \<and> natToString n \<noteq> []"
proof (induction n rule: natToString.induct)
  case (1 n)
  show ?case
    by (subst (1 2) natToString.simps) (use 1 in \<open>auto simp: isDigit_digitChar\<close>)
qed

lemma digitsToNat_snoc: "digitsToNat (ds @ [c]) = 10 * digitsToNat ds + digitVal c"
  by (simp add: digitsToNat_def)

lemma digitsToNat_natToString: "digitsToNat (natToString n) = n"
proof (induction n rule: natToString.induct)
  case (1 n)
  show ?case
  proof (cases "n < 10")
    case True
    then show ?thesis by (subst natToString.simps) (simp add: digitsToNat_def digitVal_digitChar)
  next
    case False
    with 1 show ?thesis
      by (subst natToString.simps) (simp add: digitsToNat_snoc digitVal_digitChar)
  qed
qed

lemma isDigit_not_ws: "isDigit c \<Longrightarrow> \<not> isWhiteSpace c \<and> c \<noteq> CHR ''-'' \<and> c \<noteq> CHR ''+''"
  by (auto simp: isDigit_def isWhiteSpace_def)

lemma isDigit_cases:
  "isDigit c \<Longrightarrow> c = CHR ''0'' \<or> c = CHR ''1'' \<or> c = CHR ''2'' \<or> c = CHR ''3'' \<or> c = CHR ''4'' \<or>
     c = CHR ''5'' \<or> c = CHR ''6'' \<or> c = CHR ''7'' \<or> c = CHR ''8'' \<or> c = CHR ''9''"
  by (simp add: isDigit_def)

lemma toUpperChar_digit: "isDigit c \<Longrightarrow> toUpperChar c = c"
  by (drule isDigit_cases) (elim disjE; simp add: toUpperChar_def)

lemma parseInt_digits: "ds \<noteq> [] \<Longrightarrow> list_all isDigit ds \<Longrightarrow> parseInt ds = Some (int (digitsToNat ds))"
proof -
  assume a: "ds \<noteq> []" "list_all isDigit ds"
  then obtain c r where ds: "ds = c # r" by (cases ds) auto
  with a have c: "isDigit c" by simp
  from a have tw: "takeWhile isDigit ds = ds" by (simp add: list_all_iff)
  from c isDigit_not_ws[OF c] have dw: "dropWhile isWhiteSpace ds = ds" by (simp add: ds)
  show ?thesis unfolding parseInt_def Let_def dw using tw isDigit_not_ws[OF c] a(1)
    by (simp add: ds)
qed

lemma toUpperCase_digits: "list_all isDigit ds \<Longrightarrow> toUpperCase ds = ds"
  by (induction ds) (auto simp: toUpperCase_def toUpperChar_digit)

lemma quadrant_all: "(\<forall>q. P q) \<longleftrightarrow> list_all P quadrantOrder"
proof
  assume "list_all P quadrantOrder"
  then show "\<forall>q. P q" 
  proof (intro allI)
    fix q assume "list_all P quadrantOrder" then show "P q" by (cases q) (simp_all add: quadrantOrder_def)
  qed
qed (simp add: list_all_iff)

lemma consistent_iff: "consistent m \<longleftrightarrow> (\<forall>q. \<forall>t\<in>set (getq m q). getQuadrantKey t = q)"
  unfolding consistent_def quadrant_all[of "\<lambda>q. \<forall>t\<in>set (getq m q). getQuadrantKey t = q"]
  by (simp add: list_all_iff)

lemma set_allTodos: "set (allTodos m) = (\<Union>q. set (getq m q))"
proof -
  have "(\<Union>q. set (getq m q)) = (\<Union>q\<in>set quadrantOrder. set (getq m q))"
  proof -
    have "(UNIV :: quadrant set) = set quadrantOrder"
      using quadrant_all[of "\<lambda>q. q \<in> set quadrantOrder"] by (auto simp: list_all_iff)
    then show ?thesis by simp
  qed
  then show ?thesis by (simp add: allTodos_def quadrantOrder_def Un_assoc)
qed

lemma resolve_parsed:
  assumes "parseInt (drop 1 (toUpperCase s)) = Some n"
  shows "resolveUserFriendlyId m s =
    Inr (case QUADRANT_KEY_MAP (take 1 (toUpperCase s)) of
           None \<Rightarrow> None
         | Some q \<Rightarrow> if n \<le> 0 \<or> int (length (getq m q)) < n then None
                     else Some (id' (getq m q ! nat (n - 1))))"
  using assms unfolding resolveUserFriendlyId_def Let_def
  by (auto split: option.splits)

lemma friendly_parse:
  assumes "isUserFriendlyId s"
  shows "\<exists>c ds. s = c # ds \<and> c \<in> set ''ABCDabcd'' \<and> ds \<noteq> [] \<and> list_all isDigit ds \<and>
           take 1 (toUpperCase s) = [toUpperChar c] \<and>
           parseInt (drop 1 (toUpperCase s)) = Some (int (digitsToNat ds))"
proof -
  from assms obtain c ds where s: "s = c # ds" and c: "c \<in> set ''ABCDabcd''"
    and ds: "ds \<noteq> []" "list_all isDigit ds"
    by (cases s) (auto simp: isUserFriendlyId_def)
  have "drop 1 (toUpperCase s) = ds"
    using toUpperCase_digits[OF ds(2)] by (simp add: s toUpperCase_def)
  with parseInt_digits[OF ds] s c ds show ?thesis by (simp add: toUpperCase_def)
qed

lemma key_of_letter:
  "c \<in> set ''ABCDabcd'' \<Longrightarrow> \<exists>q. QUADRANT_KEY_MAP [toUpperChar c] = Some q"
proof -
  assume "c \<in> set ''ABCDabcd''"
  then have "c = CHR ''A'' \<or> c = CHR ''B'' \<or> c = CHR ''C'' \<or> c = CHR ''D'' \<or>
             c = CHR ''a'' \<or> c = CHR ''b'' \<or> c = CHR ''c'' \<or> c = CHR ''d''" by simp
  then show ?thesis
    by (elim disjE; simp add: QUADRANT_KEY_MAP_def toUpperChar_def)
qed

lemma lower_cases:
  "c \<in> set ''abcdefghijklmnopqrstuvwxyz'' \<Longrightarrow>
    c = CHR ''a'' \<or> c = CHR ''b'' \<or> c = CHR ''c'' \<or> c = CHR ''d'' \<or> c = CHR ''e'' \<or> c = CHR ''f'' \<or>
    c = CHR ''g'' \<or> c = CHR ''h'' \<or> c = CHR ''i'' \<or> c = CHR ''j'' \<or> c = CHR ''k'' \<or> c = CHR ''l'' \<or>
    c = CHR ''m'' \<or> c = CHR ''n'' \<or> c = CHR ''o'' \<or> c = CHR ''p'' \<or> c = CHR ''q'' \<or> c = CHR ''r'' \<or>
    c = CHR ''s'' \<or> c = CHR ''t'' \<or> c = CHR ''u'' \<or> c = CHR ''v'' \<or> c = CHR ''w'' \<or> c = CHR ''x'' \<or>
    c = CHR ''y'' \<or> c = CHR ''z''"
  by simp

lemma toUpperChar_other:
  "c \<notin> set ''abcdefghijklmnopqrstuvwxyz'' \<Longrightarrow> toUpperChar c = c"
  by (simp add: toUpperChar_def)

lemma toUpperChar_idem: "toUpperChar (toUpperChar c) = toUpperChar c"
proof (cases "c \<in> set ''abcdefghijklmnopqrstuvwxyz''")
  case True
  from lower_cases[OF this] show ?thesis
    by (elim disjE; simp add: toUpperChar_def)
next
  case False
  from toUpperChar_other[OF this] show ?thesis by simp
qed

lemma toUpperCase_idem: "toUpperCase (toUpperCase s) = toUpperCase s"
  by (simp add: toUpperCase_def toUpperChar_idem)

lemma key_map_dom: "dom QUADRANT_KEY_MAP = {''A'', ''B'', ''C'', ''D''}"
  by (auto simp: QUADRANT_KEY_MAP_def)

lemma findIndex_mem:
  assumes "x \<in> set xs" "P x"
  obtains i where "findIndex P xs = Some i" "i < length xs" "P (xs ! i)"
proof -
  from assms have "findIndex P xs \<noteq> None" by (auto simp: findIndex_None)
  then obtain i where i: "findIndex P xs = Some i" by auto
  from findIndex_Some[OF i] i that show ?thesis by blast
qed

lemma prefix_of_quadrant:
  "\<exists>c. QUADRANT_PREFIX_MAP q = Some c \<and> toUpperChar c = c \<and> c \<in> set ''ABCDabcd'' \<and>
        QUADRANT_KEY_MAP [c] = Some q"
  by (cases q) (simp_all add: QUADRANT_PREFIX_MAP_def QUADRANT_KEY_MAP_def toUpperChar_def)

lemma trim_Nil_iff: "trim s = [] \<longleftrightarrow> list_all isWhiteSpace s"
proof -
  let ?d = "dropWhile isWhiteSpace s"
  have "trim s = [] \<longleftrightarrow> (\<forall>x\<in>set ?d. isWhiteSpace x)"
    by (simp add: trim_def dropWhile_eq_Nil_conv)
  also have "\<dots> \<longleftrightarrow> ?d = []"
  proof
    assume a: "\<forall>x\<in>set ?d. isWhiteSpace x"
    show "?d = []"
    proof (rule ccontr)
      assume ne: "?d \<noteq> []"
      then have "\<not> isWhiteSpace (hd ?d)" by (rule hd_dropWhile)
      moreover from ne have "hd ?d \<in> set ?d" by simp
      ultimately show False using a by blast
    qed
  next
    assume h: "?d = []"
    show "\<forall>x\<in>set ?d. isWhiteSpace x" unfolding h by simp
  qed
  also have "\<dots> \<longleftrightarrow> list_all isWhiteSpace s"
    by (simp add: dropWhile_eq_Nil_conv list_all_iff)
  finally show ?thesis .
qed

lemma trim_decomp:
  "\<exists>a b. s = a @ trim s @ b \<and> list_all isWhiteSpace a \<and> list_all isWhiteSpace b"
proof -
  let ?d = "dropWhile isWhiteSpace s"
  have 1: "s = takeWhile isWhiteSpace s @ ?d" by simp
  have "rev (takeWhile isWhiteSpace (rev ?d) @ dropWhile isWhiteSpace (rev ?d)) = ?d"
    by (simp only: takeWhile_dropWhile_id rev_rev_ident)
  then have "rev (dropWhile isWhiteSpace (rev ?d)) @ rev (takeWhile isWhiteSpace (rev ?d)) = ?d"
    by (simp only: rev_append)
  then have 2: "?d = trim s @ rev (takeWhile isWhiteSpace (rev ?d))"
    unfolding trim_def by (rule sym)
  have 3: "list_all isWhiteSpace (takeWhile isWhiteSpace s)"
          "list_all isWhiteSpace (rev (takeWhile isWhiteSpace (rev ?d)))"
    by (auto simp: list_all_iff dest: set_takeWhileD)
  from 1 2 have "s = takeWhile isWhiteSpace s @ trim s @ rev (takeWhile isWhiteSpace (rev ?d))"
    by metis
  with 3 show ?thesis by blast
qed

lemma trim_ends:
  assumes "trim s \<noteq> []"
  shows "\<not> isWhiteSpace (hd (trim s)) \<and> \<not> isWhiteSpace (last (trim s))"
proof -
  let ?d = "dropWhile isWhiteSpace s"
  let ?e = "dropWhile isWhiteSpace (rev ?d)"
  from assms have e: "?e \<noteq> []" by (simp add: trim_def)
  then have l: "\<not> isWhiteSpace (hd ?e)" by (rule hd_dropWhile)
  have last: "last (trim s) = hd ?e" using e by (simp add: trim_def last_rev)
  have "?d = [] \<Longrightarrow> ?e = []" by (simp only: rev.simps dropWhile.simps)
  with e have d: "?d \<noteq> []" by blast
  then have hd: "\<not> isWhiteSpace (hd ?d)" by (rule hd_dropWhile)
  have "hd (trim s) = hd ?d"
  proof -
    have "rev (takeWhile isWhiteSpace (rev ?d) @ ?e) = ?d"
      by (simp only: takeWhile_dropWhile_id rev_rev_ident)
    then have "?d = rev ?e @ rev (takeWhile isWhiteSpace (rev ?d))"
      by (simp only: rev_append)
    then have "hd ?d = hd (rev ?e)" using e by (metis hd_append2 rev_is_Nil_conv)
    then show ?thesis by (simp add: trim_def)
  qed
  with hd l last show ?thesis by simp
qed

lemma getq_stats_update [simp]:
  "getq (m\<lparr>stats := s\<rparr>) q = getq m q" "getq (m\<lparr>lastUpdated := l\<rparr>) q = getq m q"
  by (cases q; simp)+

lemma getq_save: "getq (fst (saveTodoMatrix now st m)) q = getq m q"
  by (simp add: saveTodoMatrix_def Let_def)

lemma save_store: "snd (saveTodoMatrix now st m) = st\<lparr>todoFile := Some (Json (fst (saveTodoMatrix now st m)))\<rparr>"
  by (simp add: saveTodoMatrix_def Let_def)

lemma load_json: "todoFile st = Some (Json m) \<Longrightarrow> loadTodoMatrix now st = (m, st)"
  by (simp add: loadTodoMatrix_def)

lemma quadrant_ex:
  "(\<exists>q. P q) \<longleftrightarrow>
     P Important_Urgent \<or> P Important_Not_Urgent \<or> P Not_Important_Urgent \<or>
     P Not_Important_Not_Urgent"
proof
  assume "\<exists>q. P q"
  then obtain q where "P q" ..
  then show "P Important_Urgent \<or> P Important_Not_Urgent \<or> P Not_Important_Urgent \<or>
     P Not_Important_Not_Urgent" by (cases q) simp_all
qed blast

lemma toggleInQuadrant_getq:
  "getq (fst (toggleInQuadrant now uid q s)) q' =
     (if q' = q then toggledSeq now uid (getq (fst s) q) else getq (fst s) q')"
  by (simp add: toggleInQuadrant_def toggledSeq_def Let_def getq_setq split: option.splits)

lemma toggleInQuadrant_found:
  "snd (toggleInQuadrant now uid q s) =
     (snd s \<or> findIndex (\<lambda>t. id' t = uid) (getq (fst s) q) \<noteq> None)"
  by (auto simp: toggleInQuadrant_def Let_def split: option.splits)

lemma toggle_passes_getq:
  "getq (fst (foldl (\<lambda>s q. toggleInQuadrant now uid q s) (m, False) quadrantOrder)) q =
     toggledSeq now uid (getq m q)"
  by (cases q) (simp_all add: quadrantOrder_def toggleInQuadrant_getq del: getq.simps)

lemma toggle_passes_found:
  "snd (foldl (\<lambda>s q. toggleInQuadrant now uid q s) (m, False) quadrantOrder) =
     (\<exists>q. findIndex (\<lambda>t. id' t = uid) (getq m q) \<noteq> None)"
  unfolding quadrant_ex[of "\<lambda>q. findIndex (\<lambda>t. id' t = uid) (getq m q) \<noteq> None"]
  by (simp add: quadrantOrder_def toggleInQuadrant_found toggleInQuadrant_getq del: getq.simps)

lemma findIndex_ids:
  "findIndex (\<lambda>t. id' t = uid) xs = findIndex (\<lambda>x. x = uid) (map id' xs)"
  by (induction xs) simp_all

lemma findIndex_ids_cong:
  "map id' xs = map id' ys \<Longrightarrow>
     findIndex (\<lambda>t. id' t = uid) xs = findIndex (\<lambda>t. id' t = uid) ys"
  by (simp add: findIndex_ids)

lemma resolve_ids_cong:
  assumes "\<And>q. map id' (getq m1 q) = map id' (getq m q)"
  shows "resolveUserFriendlyId m1 s = resolveUserFriendlyId m s"
proof -
  have len: "length (getq m1 q) = length (getq m q)" for q
    using assms[of q] by (metis length_map)
  have nth: "i < length (getq m q) \<Longrightarrow> id' (getq m1 q ! i) = id' (getq m q ! i)" for q i
    using assms[of q] len[of q] by (metis nth_map)
  show ?thesis
    unfolding resolveUserFriendlyId_def Let_def
    by (auto simp: len nth split: option.splits)
qed

lemma resolveTodoId_ids_cong:
  assumes "\<And>q. map id' (getq m1 q) = map id' (getq m q)"
  shows "resolveTodoId m1 s = resolveTodoId m s"
  by (simp add: resolveTodoId_def resolve_ids_cong[OF assms])

lemma toggledSeq_ids: "map id' (toggledSeq now uid xs) = map id' xs"
proof (cases "findIndex (\<lambda>t. id' t = uid) xs")
  case None then show ?thesis by (simp add: toggledSeq_def)
next
  case (Some i)
  from findIndex_Some[OF Some] have "i < length xs" by simp
  then show ?thesis
    by (simp add: toggledSeq_def Some map_update list_update_same_conv)
qed

lemma toggleTodo_found:
  assumes "todoFile st = Some (Json m)" and "resolveTodoId m todoId = Inr uid"
    and "findIndex (\<lambda>t. id' t = uid) (getq m q0) \<noteq> None"
  shows "\<exists>m1. toggleTodo now st todoId = (Inr m1, st\<lparr>todoFile := Some (Json m1)\<rparr>) \<and>
              (\<forall>q. getq m1 q = toggledSeq now uid (getq m q))"
proof -
  let ?r = "foldl (\<lambda>s q. toggleInQuadrant now uid q s) (m, False) quadrantOrder"
  have f: "snd ?r" using assms(3) toggle_passes_found[of now uid m] by blast
  let ?m1 = "fst (saveTodoMatrix now st (fst ?r))"
  have "toggleTodo now st todoId = (Inr ?m1, st\<lparr>todoFile := Some (Json ?m1)\<rparr>)"
    using f save_store[of now st "fst ?r"]
    by (simp add: toggleTodo_def load_json[OF assms(1)] assms(2) case_prod_beta)
  moreover have "\<forall>q. getq ?m1 q = toggledSeq now uid (getq m q)"
    by (simp add: getq_save toggle_passes_getq del: getq.simps)
  ultimately show ?thesis by blast
qed

lemma toggledSeq_nth:
  assumes "findIndex (\<lambda>t. id' t = uid) xs = Some i"
  shows "toggledSeq now uid xs ! i =
           (xs ! i)\<lparr>completed := \<not> completed (xs ! i),
                    completedAt := if completed (xs ! i) then None else Some now\<rparr>"
  using findIndex_Some[OF assms] by (simp add: toggledSeq_def assms)

lemma resolve_shape_cases:
  assumes "isUserFriendlyId s"
  shows "resolveUserFriendlyId m s = Inr None \<or>
         (\<exists>q i. i < length (getq m q) \<and> resolveUserFriendlyId m s = Inr (Some (id' (getq m q ! i))))"
proof -
  from friendly_parse[OF assms] obtain c ds where
    c: "c \<in> set ''ABCDabcd''" and pre: "take 1 (toUpperCase s) = [toUpperChar c]"
    and p: "parseInt (drop 1 (toUpperCase s)) = Some (int (digitsToNat ds))" by blast
  from key_of_letter[OF c] obtain q where q: "QUADRANT_KEY_MAP [toUpperChar c] = Some q" by blast
  let ?n = "int (digitsToNat ds)"
  show ?thesis
  proof (cases "?n \<le> 0 \<or> int (length (getq m q)) < ?n")
    case True
    then show ?thesis using resolve_parsed[OF p, of m] pre q by simp
  next
    case False
    then have "nat (?n - 1) < length (getq m q)" by linarith
    moreover have "resolveUserFriendlyId m s = Inr (Some (id' (getq m q ! nat (?n - 1))))"
      using resolve_parsed[OF p, of m] pre q False by simp
    ultimately show ?thesis by blast
  qed
qed

lemma deleteFromQuadrant_getq:
  "getq (fst (deleteFromQuadrant uid q s)) q' =
     (if q' = q then deletedSeq uid (getq (fst s) q) else getq (fst s) q')"
  by (simp add: deleteFromQuadrant_def deletedSeq_def Let_def getq_setq split: option.splits)

lemma deleteFromQuadrant_found:
  "snd (deleteFromQuadrant uid q s) =
     (snd s \<or> findIndex (\<lambda>t. id' t = uid) (getq (fst s) q) \<noteq> None)"
  by (auto simp: deleteFromQuadrant_def Let_def split: option.splits)

lemma delete_passes_getq:
  "getq (fst (foldl (\<lambda>s q. deleteFromQuadrant uid q s) (m, False) quadrantOrder)) q =
     deletedSeq uid (getq m q)"
  by (cases q) (simp_all add: quadrantOrder_def deleteFromQuadrant_getq del: getq.simps)

lemma delete_passes_found:
  "snd (foldl (\<lambda>s q. deleteFromQuadrant uid q s) (m, False) quadrantOrder) =
     (\<exists>q. findIndex (\<lambda>t. id' t = uid) (getq m q) \<noteq> None)"
  unfolding quadrant_ex[of "\<lambda>q. findIndex (\<lambda>t. id' t = uid) (getq m q) \<noteq> None"]
  by (simp add: quadrantOrder_def deleteFromQuadrant_found deleteFromQuadrant_getq del: getq.simps)

lemma updateInQuadrant_miss:
  "findIndex (\<lambda>t. id' t = uid) (getq (fst s) q) = None \<Longrightarrow> updateInQuadrant now uid u q s = s"
  by (simp add: updateInQuadrant_def)

lemma updateInQuadrant_found:
  "snd (updateInQuadrant now uid u q s) =
     (snd s \<or> findIndex (\<lambda>t. id' t = uid) (getq (fst s) q) \<noteq> None)"
  by (auto simp: updateInQuadrant_def Let_def split: option.splits)

lemma update_passes_found:
  "snd (foldl (\<lambda>s q. updateInQuadrant now uid u q s) (m, False) quadrantOrder) =
     (\<exists>q. findIndex (\<lambda>t. id' t = uid) (getq m q) \<noteq> None)"
proof -
  let ?P = "\<lambda>t. id' t = uid"
  let ?h = "\<lambda>q. findIndex ?P (getq m q) \<noteq> None"
  let ?f = "\<lambda>q s. updateInQuadrant now uid u q s"
  have fold: "foldl (\<lambda>s q. ?f q s) (m, False) quadrantOrder =
          ?f Not_Important_Not_Urgent (?f Not_Important_Urgent
            (?f Important_Not_Urgent (?f Important_Urgent (m, False))))"
    by (simp add: quadrantOrder_def)
  have mono: "\<And>q s. snd s \<Longrightarrow> snd (?f q s)" by (simp add: updateInQuadrant_found)
  show ?thesis
  proof (cases "?h Important_Urgent")
    case True
    then have "snd (?f Important_Urgent (m, False))" by (simp add: updateInQuadrant_found)
    then show ?thesis unfolding fold using True by (blast intro: mono)
  next
    case a: False
    then have s1: "?f Important_Urgent (m, False) = (m, False)"
      by (simp add: updateInQuadrant_miss)
    show ?thesis
    proof (cases "?h Important_Not_Urgent")
      case True
      then have "snd (?f Important_Not_Urgent (m, False))" by (simp add: updateInQuadrant_found)
      then show ?thesis unfolding fold s1 using True by (blast intro: mono)
    next
      case b: False
      then have s2: "?f Important_Not_Urgent (m, False) = (m, False)"
        by (simp add: updateInQuadrant_miss)
      show ?thesis
      proof (cases "?h Not_Important_Urgent")
        case True
        then have "snd (?f Not_Important_Urgent (m, False))" by (simp add: updateInQuadrant_found)
        then show ?thesis unfolding fold s1 s2 using True by (blast intro: mono)
      next
        case c: False
        then have s3: "?f Not_Important_Urgent (m, False) = (m, False)"
          by (simp add: updateInQuadrant_miss)
        show ?thesis unfolding fold s1 s2 s3 quadrant_ex[of ?h] using a b c
          by (simp add: updateInQuadrant_found)
      qed
    qed
  qed
qed

lemma resolveTodoId_error:
  "resolveTodoId m todoId = Inl e \<Longrightarrow> e = NotFound todoId"
  using resolve_shape_cases[of todoId m]
  by (auto simp: resolveTodoId_def split: if_splits sum.splits option.splits)

lemma resolveTodoId_item:
  assumes "resolveTodoId m todoId = Inr uid"
  shows "uid = todoId \<or> (\<exists>q. findIndex (\<lambda>t. id' t = uid) (getq m q) \<noteq> None)"
proof (cases "isUserFriendlyId todoId")
  case False
  with assms show ?thesis by (simp add: resolveTodoId_def)
next
  case True
  from resolve_shape_cases[OF True, of m] assms True
  obtain q i where qi: "i < length (getq m q)" "uid = id' (getq m q ! i)"
    by (auto simp: resolveTodoId_def split: if_splits)
  then have "getq m q ! i \<in> set (getq m q)" by simp
  with qi(2) have "findIndex (\<lambda>t. id' t = uid) (getq m q) \<noteq> None"
    by (auto simp: findIndex_None)
  then show ?thesis by blast
qed

lemma resolvesToNoItem_cases:
  assumes "resolvesToNoItem m todoId"
  shows "resolveTodoId m todoId = Inl (NotFound todoId) \<or>
         (resolveTodoId m todoId = Inr todoId \<and>
          (\<forall>q. findIndex (\<lambda>t. id' t = todoId) (getq m q) = None))"
proof (cases "resolveTodoId m todoId")
  case (Inl e)
  with resolveTodoId_error[OF Inl] show ?thesis by simp
next
  case (Inr uid)
  with assms have none: "\<forall>q. findIndex (\<lambda>t. id' t = uid) (getq m q) = None"
    by (simp add: resolvesToNoItem_def
          quadrant_all[of "\<lambda>q. findIndex (\<lambda>t. id' t = uid) (getq m q) = None"])
  with resolveTodoId_item[OF Inr] have "uid = todoId" by auto
  with Inr none show ?thesis by simp
qed

lemma updateTodo_found:
  assumes "todoFile st = Some (Json m)" and "resolveTodoId m todoId = Inr uid"
    and "findIndex (\<lambda>t. id' t = uid) (getq m q0) \<noteq> None"
  shows "\<exists>m1. updateTodo now st todoId u = (Inr m1, st\<lparr>todoFile := Some (Json m1)\<rparr>) \<and>
     (\<forall>q. getq m1 q =
        getq (fst (foldl (\<lambda>s q. updateInQuadrant now uid u q s) (m, False) quadrantOrder)) q)"
proof -
  let ?r = "foldl (\<lambda>s q. updateInQuadrant now uid u q s) (m, False) quadrantOrder"
  have f: "snd ?r" using assms(3) update_passes_found[of now uid u m] by blast
  let ?m1 = "fst (saveTodoMatrix now st (fst ?r))"
  have "updateTodo now st todoId u = (Inr ?m1, st\<lparr>todoFile := Some (Json ?m1)\<rparr>)"
    using f save_store[of now st "fst ?r"]
    by (simp add: updateTodo_def load_json[OF assms(1)] assms(2) case_prod_beta)
  moreover have "\<forall>q. getq ?m1 q = getq (fst ?r) q"
    by (simp add: getq_save del: getq.simps)
  ultimately show ?thesis by blast
qed

lemma deleteTodo_found:
  assumes "todoFile st = Some (Json m)" and "resolveTodoId m todoId = Inr uid"
    and "findIndex (\<lambda>t. id' t = uid) (getq m q0) \<noteq> None"
  shows "\<exists>m1. deleteTodo now st todoId = (Inr m1, st\<lparr>todoFile := Some (Json m1)\<rparr>) \<and>
              (\<forall>q. getq m1 q = deletedSeq uid (getq m q))"
proof -
  let ?r = "foldl (\<lambda>s q. deleteFromQuadrant uid q s) (m, False) quadrantOrder"
  have f: "snd ?r" using assms(3) delete_passes_found[of uid m] by blast
  let ?m1 = "fst (saveTodoMatrix now st (fst ?r))"
  have "deleteTodo now st todoId = (Inr ?m1, st\<lparr>todoFile := Some (Json ?m1)\<rparr>)"
    using f save_store[of now st "fst ?r"]
    by (simp add: deleteTodo_def load_json[OF assms(1)] assms(2) case_prod_beta)
  moreover have "\<forall>q. getq ?m1 q = deletedSeq uid (getq m q)"
    by (simp add: getq_save delete_passes_getq del: getq.simps)
  ultimately show ?thesis by blast
qed

lemma not_resolvesToNoItem:
  assumes "\<not> resolvesToNoItem m todoId"
  shows "\<exists>uid q. resolveTodoId m todoId = Inr uid \<and>
           findIndex (\<lambda>t. id' t = uid) (getq m q) \<noteq> None"
proof (cases "resolveTodoId m todoId")
  case (Inl e)
  with assms show ?thesis by (simp add: resolvesToNoItem_def)
next
  case (Inr uid)
  with assms have "\<not> (\<forall>q. findIndex (\<lambda>t. id' t = uid) (getq m q) = None)"
    by (simp add: resolvesToNoItem_def
          quadrant_all[of "\<lambda>q. findIndex (\<lambda>t. id' t = uid) (getq m q) = None"])
  with Inr show ?thesis by auto
qed

lemma consistent_setq:
  assumes "consistent m" and "\<And>t. t \<in> set xs \<Longrightarrow> getQuadrantKey t = q"
  shows "consistent (setq m q xs)"
  using assms unfolding consistent_iff by (auto simp: getq_setq simp del: getq.simps setq.simps)

lemma set_splice1: "set (splice1 i xs) \<subseteq> set xs"
  unfolding splice1_def using set_take_subset[of i xs] set_drop_subset[of "Suc i" xs] by auto

lemma getQuadrantKey_toggled [simp]:
  "getQuadrantKey (t\<lparr>completed := c, completedAt := a\<rparr>) = getQuadrantKey t"
  by (simp add: getQuadrantKey_def)

lemma consistent_cong:
  "(\<And>q. getq m1 q = getq m q) \<Longrightarrow> consistent m1 = consistent m"
  by (simp add: consistent_iff del: getq.simps)

lemma updateInQuadrant_consistent:
  assumes "consistent (fst s)"
  shows "consistent (fst (updateInQuadrant now uid u q s))"
proof (cases "findIndex (\<lambda>t. id' t = uid) (getq (fst s) q)")
  case None
  with assms show ?thesis by (simp add: updateInQuadrant_miss)
next
  case (Some i)
  let ?m = "fst s"
  let ?xs = "getq ?m q"
  let ?upd = "mergeTodo now (?xs ! i) u"
  let ?nq = "getQuadrantKey ?upd"
  from assms have old: "\<And>q t. t \<in> set (getq ?m q) \<Longrightarrow> getQuadrantKey t = q"
    by (simp add: consistent_iff del: getq.simps)
  show ?thesis
  proof (cases "?nq = q")
    case True
    have inpl: "\<And>t. t \<in> set (?xs[i := ?upd]) \<Longrightarrow> getQuadrantKey t = q"
      using set_update_subset_insert[of ?xs i ?upd] old[of _ q] True by auto
    from consistent_setq[of ?m "?xs[i := ?upd]" q, OF assms inpl] True Some show ?thesis
      by (simp add: updateInQuadrant_def Let_def del: getq.simps setq.simps)
  next
    case False
    let ?m1 = "setq ?m q (splice1 i ?xs)"
    have spl: "\<And>t. t \<in> set (splice1 i ?xs) \<Longrightarrow> getQuadrantKey t = q"
      using set_splice1[of i ?xs] old[of _ q] by auto
    from consistent_setq[of ?m "splice1 i ?xs" q, OF assms spl] have c1: "consistent ?m1" .
    then have old1: "\<And>t. t \<in> set (getq ?m1 ?nq) \<Longrightarrow> getQuadrantKey t = ?nq"
      by (simp add: consistent_iff del: getq.simps setq.simps)
    have app: "\<And>t. t \<in> set (getq ?m1 ?nq @ [?upd]) \<Longrightarrow> getQuadrantKey t = ?nq"
      using old1 by auto
    from consistent_setq[of ?m1 "getq ?m1 ?nq @ [?upd]" ?nq, OF c1 app] False Some show ?thesis
      by (simp add: updateInQuadrant_def Let_def del: getq.simps setq.simps)
  qed
qed

lemma toggledSeq_consistent:
  assumes "\<And>t. t \<in> set xs \<Longrightarrow> getQuadrantKey t = q" and "t \<in> set (toggledSeq now uid xs)"
  shows "getQuadrantKey t = q"
proof (cases "findIndex (\<lambda>t. id' t = uid) xs")
  case None with assms show ?thesis by (simp add: toggledSeq_def)
next
  case (Some i)
  from findIndex_Some[OF Some] have i: "i < length xs" by simp
  let ?x = "(xs ! i)\<lparr>completed := \<not> completed (xs ! i),
                    completedAt := if completed (xs ! i) then None else Some now\<rparr>"
  from assms(2) Some have "t \<in> insert ?x (set xs)"
    using set_update_subset_insert[of xs i ?x] by (auto simp: toggledSeq_def)
  moreover have "getQuadrantKey ?x = q" using assms(1)[of "xs ! i"] i by simp
  ultimately show ?thesis using assms(1) by auto
qed

lemma deletedSeq_subset: "set (deletedSeq uid xs) \<subseteq> set xs"
  using set_splice1[of _ xs] by (auto simp: deletedSeq_def split: option.splits)

lemma update_passes_consistent:
  assumes "consistent m"
  shows "consistent (fst (foldl (\<lambda>s q. updateInQuadrant now uid u q s) (m, False) quadrantOrder))"
  using assms by (simp add: quadrantOrder_def updateInQuadrant_consistent)

lemma storeConsistent_load:
  assumes "storeConsistent st"
  shows "consistent (fst (loadTodoMatrix now st)) \<and> storeConsistent (snd (loadTodoMatrix now st)) \<and>
         todoFile (snd (loadTodoMatrix now st)) = Some (Json (fst (loadTodoMatrix now st)))"
proof -
  have d: "consistent (defaultMatrix now)"
    by (simp add: consistent_def defaultMatrix_def quadrantOrder_def)
  show ?thesis
  proof (cases "todoFile st")
    case None
    with d show ?thesis by (simp add: loadTodoMatrix_def storeConsistent_def)
  next
    case (Some f)
    with d assms show ?thesis
      by (cases f) (simp_all add: loadTodoMatrix_def storeConsistent_def)
  qed
qed

lemma storeConsistent_save:
  "consistent m \<Longrightarrow> storeConsistent (snd (saveTodoMatrix now st m))"
  using consistent_cong[of "fst (saveTodoMatrix now st m)" m]
  by (simp add: save_store storeConsistent_def getq_save del: getq.simps)

lemma toggle_passes_consistent:
  assumes "consistent m"
  shows "consistent (fst (foldl (\<lambda>s q. toggleInQuadrant now uid q s) (m, False) quadrantOrder))"
  unfolding consistent_iff toggle_passes_getq
proof (intro allI ballI)
  fix q t
  assume t: "t \<in> set (toggledSeq now uid (getq m q))"
  from assms have "\<And>x. x \<in> set (getq m q) \<Longrightarrow> getQuadrantKey x = q"
    unfolding consistent_iff by blast
  from toggledSeq_consistent[of "getq m q" q t now uid, OF this t]
  show "getQuadrantKey t = q" .
qed

lemma delete_passes_consistent:
  assumes "consistent m"
  shows "consistent (fst (foldl (\<lambda>s q. deleteFromQuadrant uid q s) (m, False) quadrantOrder))"
  unfolding consistent_iff delete_passes_getq
proof (intro allI ballI)
  fix q t
  assume "t \<in> set (deletedSeq uid (getq m q))"
  with deletedSeq_subset[of uid "getq m q"] have "t \<in> set (getq m q)" by blast
  with assms show "getQuadrantKey t = q" unfolding consistent_iff by blast
qed

lemma addTodo_storeConsistent:
  assumes "storeConsistent st"
  shows "storeConsistent (snd (addTodo now st t))"
proof -
  let ?m = "fst (loadTodoMatrix now st)"
  let ?q = "getQuadrantKey t"
  from storeConsistent_load[OF assms, of now] have c: "consistent ?m" by simp
  then have old: "\<And>x. x \<in> set (getq ?m ?q) \<Longrightarrow> getQuadrantKey x = ?q"
    unfolding consistent_iff by blast
  have app: "\<And>x. x \<in> set (getq ?m ?q @ [t]) \<Longrightarrow> getQuadrantKey x = ?q"
    using old by auto
  from consistent_setq[of ?m "getq ?m ?q @ [t]" ?q, OF c app]
  have "storeConsistent (snd (saveTodoMatrix now (snd (loadTodoMatrix now st))
           (setq ?m ?q (getq ?m ?q @ [t]))))"
    by (rule storeConsistent_save)
  then show ?thesis
    by (simp add: addTodo_def case_prod_beta Let_def del: getq.simps setq.simps)
qed

lemma store_op_consistent:
  assumes "storeConsistent st"
    and "\<And>m uid. consistent m \<Longrightarrow> consistent (fst (F uid m))"
  shows "storeConsistent (snd
    (let (m, st1) = loadTodoMatrix now st in
     case resolveTodoId m todoId of
       Inl e \<Rightarrow> (Inl e, st1)
     | Inr uuid \<Rightarrow>
         (let (m', found) = F uuid m
          in if \<not> found then (Inl (NotFound uuid), st1)
             else (let (m'', st2) = saveTodoMatrix now st1 m' in (Inr m'', st2)))))"
proof -
  let ?m = "fst (loadTodoMatrix now st)"
  let ?st1 = "snd (loadTodoMatrix now st)"
  from storeConsistent_load[OF assms(1), of now]
  have c: "consistent ?m" and s1: "storeConsistent ?st1" by simp_all
  show ?thesis
  proof (cases "resolveTodoId ?m todoId")
    case (Inl e)
    with s1 show ?thesis by (simp add: case_prod_beta)
  next
    case (Inr uid)
    show ?thesis
    proof (cases "snd (F uid ?m)")
      case False
      with Inr s1 show ?thesis by (simp add: case_prod_beta)
    next
      case True
      from storeConsistent_save[OF assms(2)[OF c], of now ?st1 uid]
      show ?thesis using Inr True by (simp add: case_prod_beta)
    qed
  qed
qed

lemma updateTodo_storeConsistent:
  assumes "storeConsistent st"
  shows "storeConsistent (snd (updateTodo now st todoId u))"
  unfolding updateTodo_def
  by (rule store_op_consistent[OF assms,
        where F = "\<lambda>uuid m. foldl (\<lambda>s q. updateInQuadrant now uuid u q s) (m, False) quadrantOrder"])
     (rule update_passes_consistent)

lemma toggleTodo_storeConsistent:
  assumes "storeConsistent st"
  shows "storeConsistent (snd (toggleTodo now st todoId))"
  unfolding toggleTodo_def
  by (rule store_op_consistent[OF assms,
        where F = "\<lambda>uuid m. foldl (\<lambda>s q. toggleInQuadrant now uuid q s) (m, False) quadrantOrder"])
     (rule toggle_passes_consistent)

lemma deleteTodo_storeConsistent:
  assumes "storeConsistent st"
  shows "storeConsistent (snd (deleteTodo now st todoId))"
  unfolding deleteTodo_def
  by (rule store_op_consistent[OF assms,
        where F = "\<lambda>uuid m. foldl (\<lambda>s q. deleteFromQuadrant uuid q s) (m, False) quadrantOrder"])
     (rule delete_passes_consistent)

lemma perform_storeConsistent:
  "storeConsistent st \<Longrightarrow> storeConsistent (perform now op st)"
  by (cases op)
     (simp_all add: perform_def addTodo_storeConsistent updateTodo_storeConsistent
        toggleTodo_storeConsistent deleteTodo_storeConsistent)

lemma run_storeConsistent:
  "storeConsistent st \<Longrightarrow> storeConsistent (run ops st)"
  unfolding run_def
  by (induction ops arbitrary: st) (simp_all add: perform_storeConsistent)

lemma consistent_unique_quadrant:
  assumes "consistent m" and "t \<in> set (allTodos m)"
  shows "\<exists>!q. t \<in> set (getq m q)"
proof -
  from assms(2) obtain q where q: "t \<in> set (getq m q)" by (auto simp: set_allTodos)
  moreover have "\<And>q'. t \<in> set (getq m q') \<Longrightarrow> q' = getQuadrantKey t"
    using assms(1) by (auto simp: consistent_iff simp del: getq.simps)
  ultimately show ?thesis by blast
qed

lemma mergeTodo_priority:
  "priority (mergeTodo now t u) = (case u_priority u of Some v \<Rightarrow> v | None \<Rightarrow> priority t)"
  "urgency (mergeTodo now t u) = (case u_urgency u of Some v \<Rightarrow> v | None \<Rightarrow> urgency t)"
  by (simp_all add: mergeTodo_def spread_def Let_def)

lemma getQuadrantKey_remerge:
  "getQuadrantKey (mergeTodo now (mergeTodo now t u) u) = getQuadrantKey (mergeTodo now t u)"
  unfolding getQuadrantKey_def mergeTodo_priority
  by (cases "u_priority u"; cases "u_urgency u"; simp)

lemma setq_setq: "setq (setq m q xs) q ys = setq m q ys"
  by (cases q) simp_all

lemma update_passes_all_miss:
  "(\<And>q'. q' \<in> set qs \<Longrightarrow> findIndex (\<lambda>t. id' t = uid) (getq M q') = None) \<Longrightarrow>
     foldl (\<lambda>s q. updateInQuadrant now uid u q s) (M, f) qs = (M, f)"
  by (induction qs) (simp_all add: updateInQuadrant_miss del: getq.simps)

lemma updateInQuadrant_hit:
  assumes "findIndex (\<lambda>t. id' t = uid) (getq M q) = Some i"
  shows "updateInQuadrant now uid u q (M, f) =
    (let merged = mergeTodo now (getq M q ! i) u; nq = getQuadrantKey merged
     in if nq \<noteq> q
        then (setq (setq M q (splice1 i (getq M q))) nq (getq M nq @ [merged]), True)
        else (setq M q ((getq M q)[i := merged]), True))"
  using assms
  by (simp add: updateInQuadrant_def Let_def getq_setq del: getq.simps setq.simps)

lemma update_passes_revisit:
  assumes "distinct qs"
    and "\<And>q'. q' \<in> set qs \<Longrightarrow> q' \<noteq> nq \<Longrightarrow> findIndex (\<lambda>t. id' t = uid) (getq M q') = None"
    and "getq M nq = ys @ [x]"
    and "findIndex (\<lambda>t. id' t = uid) ys = None"
    and "getQuadrantKey (mergeTodo now x u) = nq"
  shows "foldl (\<lambda>s q. updateInQuadrant now uid u q s) (M, True) qs =
           (if nq \<in> set qs \<and> id' x = uid then setq M nq (ys @ [mergeTodo now x u]) else M, True)"
  using assms(1,2)
proof (induction qs)
  case Nil
  show ?case by simp
next
  case (Cons q' qs)
  let ?P = "\<lambda>t. id' t = uid"
  show ?case
  proof (cases "q' = nq")
    case False
    from Cons.prems(2)[of q'] False have "findIndex ?P (getq M q') = None" by simp
    then have step: "updateInQuadrant now uid u q' (M, True) = (M, True)"
      by (simp add: updateInQuadrant_miss)
    from Cons.prems have "distinct qs"
      and "\<And>q''. q'' \<in> set qs \<Longrightarrow> q'' \<noteq> nq \<Longrightarrow> findIndex ?P (getq M q'') = None" by simp_all
    from Cons.IH[OF this] step False show ?thesis by simp
  next
    case True
    from Cons.prems(1) True have notin: "nq \<notin> set qs" by simp
    show ?thesis
    proof (cases "id' x = uid")
      case False
      then have "findIndex ?P (getq M nq) = None"
        using assms(3,4) by (simp add: findIndex_append)
      then have step: "updateInQuadrant now uid u q' (M, True) = (M, True)"
        using True by (simp add: updateInQuadrant_miss)
      have "\<And>q''. q'' \<in> set qs \<Longrightarrow> findIndex ?P (getq M q'') = None"
        using Cons.prems(2) notin by auto
      from update_passes_all_miss[of qs uid M now u True, OF this] step False
      show ?thesis by simp
    next
      case hit: True
      have len: "length ys = length ys + 0" by simp
      have fi: "findIndex ?P (getq M nq) = Some (length ys)"
        using assms(3,4) hit by (simp add: findIndex_append)
      let ?M' = "setq M nq (ys @ [mergeTodo now x u])"
      have step: "updateInQuadrant now uid u q' (M, True) = (?M', True)"
        using updateInQuadrant_hit[OF fi, of now u True] assms(3,5) True
        by (simp add: Let_def del: getq.simps setq.simps)
      have "\<And>q''. q'' \<in> set qs \<Longrightarrow> findIndex ?P (getq ?M' q'') = None"
      proof -
        fix q'' assume m: "q'' \<in> set qs"
        with notin have ne: "q'' \<noteq> nq" by auto
        with Cons.prems(2)[of q''] m show "findIndex ?P (getq ?M' q'') = None"
          by (simp add: getq_setq del: getq.simps setq.simps)
      qed
      from update_passes_all_miss[of qs uid ?M' now u True, OF this] step True hit
      show ?thesis by simp
    qed
  qed
qed

lemma order_split:
  "\<exists>pre post. quadrantOrder = pre @ q # post \<and> q \<notin> set pre \<and> q \<notin> set post \<and> distinct post \<and>
      (\<forall>q'. q' \<in> set post \<longleftrightarrow> visitedAfter q q')"
proof (cases q)
  case Important_Urgent
  show ?thesis
    by (rule exI[of _ "[]"], rule exI[of _ "[Important_Not_Urgent, Not_Important_Urgent, Not_Important_Not_Urgent]"])
       (simp add: Important_Urgent quadrantOrder_def visitedAfter_def)
next
  case Important_Not_Urgent
  show ?thesis
    by (rule exI[of _ "[Important_Urgent]"], rule exI[of _ "[Not_Important_Urgent, Not_Important_Not_Urgent]"])
       (simp add: Important_Not_Urgent quadrantOrder_def visitedAfter_def)
next
  case Not_Important_Urgent
  show ?thesis
    by (rule exI[of _ "[Important_Urgent, Important_Not_Urgent]"], rule exI[of _ "[Not_Important_Not_Urgent]"])
       (simp add: Not_Important_Urgent quadrantOrder_def visitedAfter_def)
next
  case Not_Important_Not_Urgent
  show ?thesis
    by (rule exI[of _ "[Important_Urgent, Important_Not_Urgent, Not_Important_Urgent]"], rule exI[of _ "[]"])
       (simp add: Not_Important_Not_Urgent quadrantOrder_def visitedAfter_def)
qed

lemma update_passes_located:
  assumes loc: "findIndex (\<lambda>t. id' t = uid) (getq m q) = Some i"
    and only: "\<And>q'. q' \<noteq> q \<Longrightarrow> findIndex (\<lambda>t. id' t = uid) (getq m q') = None"
  shows "foldl (\<lambda>s q. updateInQuadrant now uid u q s) (m, False) quadrantOrder =
           (updatedMatrix now uid u q i m, True)"
proof -
  let ?P = "\<lambda>t. id' t = uid"
  let ?f = "\<lambda>s q. updateInQuadrant now uid u q s"
  let ?merged = "mergeTodo now (getq m q ! i) u"
  let ?nq = "getQuadrantKey ?merged"
  from order_split[of q] obtain pre post where
    split: "quadrantOrder = pre @ q # post" and pre: "q \<notin> set pre" and post: "q \<notin> set post"
    and dist: "distinct post" and after: "\<And>q'. q' \<in> set post \<longleftrightarrow> visitedAfter q q'" by blast
  have "\<And>q'. q' \<in> set pre \<Longrightarrow> findIndex ?P (getq m q') = None"
  proof -
    fix q' assume "q' \<in> set pre"
    with pre have "q' \<noteq> q" by auto
    from only[OF this] show "findIndex ?P (getq m q') = None" .
  qed
  from update_passes_all_miss[of pre uid m now u False, OF this]
  have s1: "foldl ?f (m, False) pre = (m, False)" .
  have fold: "foldl ?f (m, False) quadrantOrder = foldl ?f (?f (m, False) q) post"
    unfolding split by (simp add: s1)
  show ?thesis
  proof (cases "?nq = q")
    case True
    let ?M2 = "setq m q ((getq m q)[i := ?merged])"
    have s2: "?f (m, False) q = (?M2, True)"
      using updateInQuadrant_hit[OF loc, of now u False] True by (simp add: Let_def)
    have "\<And>q'. q' \<in> set post \<Longrightarrow> findIndex ?P (getq ?M2 q') = None"
    proof -
      fix q' assume "q' \<in> set post"
      with post have "q' \<noteq> q" by auto
      with only[of q'] show "findIndex ?P (getq ?M2 q') = None"
        by (simp add: getq_setq del: getq.simps setq.simps)
    qed
    from update_passes_all_miss[of post uid ?M2 now u True, OF this]
    have "foldl ?f (?M2, True) post = (?M2, True)" .
    with fold s2 True show ?thesis by (simp add: updatedMatrix_def Let_def)
  next
    case False
    let ?M1 = "setq m q (splice1 i (getq m q))"
    let ?M2 = "setq ?M1 ?nq (getq m ?nq @ [?merged])"
    have s2: "?f (m, False) q = (?M2, True)"
      using updateInQuadrant_hit[OF loc, of now u False] False by (simp add: Let_def)
    have a2: "\<And>q'. q' \<in> set post \<Longrightarrow> q' \<noteq> ?nq \<Longrightarrow> findIndex ?P (getq ?M2 q') = None"
    proof -
      fix q' assume "q' \<in> set post" and ne: "q' \<noteq> ?nq"
      with post have "q' \<noteq> q" by auto
      with only[of q'] ne show "findIndex ?P (getq ?M2 q') = None"
        by (simp add: getq_setq del: getq.simps setq.simps)
    qed
    have a3: "getq ?M2 ?nq = getq m ?nq @ [?merged]"
      by (simp add: getq_setq del: getq.simps setq.simps)
    have a4: "findIndex ?P (getq m ?nq) = None" using only[of ?nq] False by simp
    have a5: "getQuadrantKey (mergeTodo now ?merged u) = ?nq" by (rule getQuadrantKey_remerge)
    from update_passes_revisit[of post ?nq uid ?M2 "getq m ?nq" ?merged now u, OF dist a2 a3 a4 a5]
    have "foldl ?f (?M2, True) post =
            (if ?nq \<in> set post \<and> id' ?merged = uid
             then setq ?M2 ?nq (getq m ?nq @ [mergeTodo now ?merged u]) else ?M2, True)" .
    with fold s2 False after[of ?nq] show ?thesis
      by (simp add: updatedMatrix_def movedItem_def Let_def setq_setq del: getq.simps setq.simps)
  qed
qed

lemma getq_updatedMatrix:
  "getq (updatedMatrix now uid u q i m) q' =
    (let merged = mergeTodo now (getq m q ! i) u; nq = getQuadrantKey merged
     in if nq = q then (if q' = q then (getq m q)[i := merged] else getq m q')
        else if q' = nq then getq m nq @ [movedItem now uid u q (getq m q ! i)]
        else if q' = q then splice1 i (getq m q)
        else getq m q')"
  by (simp add: updatedMatrix_def Let_def getq_setq del: getq.simps setq.simps)

lemma updateTodo_located:
  assumes "todoFile st = Some (Json m)" and "resolveTodoId m todoId = Inr uid"
    and loc: "findIndex (\<lambda>t. id' t = uid) (getq m q) = Some i"
    and only: "\<And>q'. q' \<noteq> q \<Longrightarrow> findIndex (\<lambda>t. id' t = uid) (getq m q') = None"
  shows "\<exists>m1. updateTodo now st todoId u = (Inr m1, st\<lparr>todoFile := Some (Json m1)\<rparr>) \<and>
     (\<forall>q'. getq m1 q' = getq (updatedMatrix now uid u q i m) q')"
proof -
  have hit: "findIndex (\<lambda>t. id' t = uid) (getq m q) \<noteq> None" using loc by simp
  from updateTodo_found[OF assms(1,2) hit, of now u] obtain m1 where
    m1: "updateTodo now st todoId u = (Inr m1, st\<lparr>todoFile := Some (Json m1)\<rparr>)"
    "\<And>q'. getq m1 q' =
        getq (fst (foldl (\<lambda>s q. updateInQuadrant now uid u q s) (m, False) quadrantOrder)) q'"
    by blast
  have pl: "foldl (\<lambda>s q. updateInQuadrant now uid u q s) (m, False) quadrantOrder =
           (updatedMatrix now uid u q i m, True)"
    using loc only by (rule update_passes_located)
  have "\<forall>q'. getq m1 q' = getq (updatedMatrix now uid u q i m) q'"
    by (simp add: m1(2) pl del: getq.simps)
  with m1(1) show ?thesis by blast
qed

lemma spread_idem: "spread (spread t u) u = spread t u"
  by (rule todo.equality) (simp_all add: spread_def split: option.splits)

lemma mergeTodo_alt:
  "mergeTodo now t u =
    (spread t u)\<lparr>completedAt :=
       if u_completed u = Some True \<and> \<not> completed t then Some now
       else if u_completed u = Some False then None
       else completedAt (spread t u)\<rparr>"
  by (simp add: mergeTodo_def Let_def)

lemma spread_modulo_completedAt:
  "(spread (t\<lparr>completedAt := x\<rparr>) u)\<lparr>completedAt := a\<rparr> = (spread t u)\<lparr>completedAt := a\<rparr>"
  by (rule todo.equality) (simp_all add: spread_def split: option.splits)

lemma remerge_fields:
  "(mergeTodo now (mergeTodo now t u) u)\<lparr>completedAt := a\<rparr> = (mergeTodo now t u)\<lparr>completedAt := a\<rparr>"
proof -
  have "(mergeTodo now (mergeTodo now t u) u)\<lparr>completedAt := a\<rparr> =
        (spread (mergeTodo now t u) u)\<lparr>completedAt := a\<rparr>"
    by (subst mergeTodo_alt) simp
  also have "\<dots> = (spread (spread t u) u)\<lparr>completedAt := a\<rparr>"
    by (subst mergeTodo_alt) (rule spread_modulo_completedAt)
  also have "\<dots> = (mergeTodo now t u)\<lparr>completedAt := a\<rparr>"
    unfolding spread_idem by (subst mergeTodo_alt) simp
  finally show ?thesis .
qed

lemma mergeTodo_completed:
  "completed (mergeTodo now t u) = (case u_completed u of Some v \<Rightarrow> v | None \<Rightarrow> completed t)"
  by (simp add: mergeTodo_def spread_def Let_def)

lemma mergeTodo_completedAt:
  "completedAt (mergeTodo now t u) =
     (if u_completed u = Some True \<and> \<not> completed t then Some now
      else if u_completed u = Some False then None
      else case u_completedAt u of Some v \<Rightarrow> v | None \<Rightarrow> completedAt t)"
  by (simp add: mergeTodo_def spread_def Let_def)

lemma remerge_same:
  assumes "u_completedAt u = None \<or> u_completed u \<noteq> Some True \<or> completed t"
  shows "mergeTodo now (mergeTodo now t u) u = mergeTodo now t u"
proof -
  have "completedAt (mergeTodo now (mergeTodo now t u) u) = completedAt (mergeTodo now t u)"
    using assms
    by (cases "u_completed u"; cases "u_completedAt u")
       (auto simp: mergeTodo_completedAt mergeTodo_completed)
  moreover from remerge_fields[where a = None and now = now and t = t and u = u]
  have "(mergeTodo now (mergeTodo now t u) u)\<lparr>completedAt := None\<rparr> =
        (mergeTodo now t u)\<lparr>completedAt := None\<rparr>" .
  ultimately show ?thesis
    by (metis todo.surjective todo.update_convs(8))
qed

lemma movedItem_fields:
  "(movedItem now uid u q t)\<lparr>completedAt := a\<rparr> = (mergeTodo now t u)\<lparr>completedAt := a\<rparr>"
  by (simp add: movedItem_def Let_def remerge_fields)

lemma movedItem_same:
  "u_completedAt u = None \<or> u_completed u \<noteq> Some True \<or> completed t \<Longrightarrow>
     movedItem now uid u q t = mergeTodo now t u"
  by (simp add: movedItem_def Let_def remerge_same)

lemma splice1_nth:
  "j < i \<Longrightarrow> i < length xs \<Longrightarrow> splice1 i xs ! j = xs ! j"
  "i \<le> j \<Longrightarrow> Suc j < length xs \<Longrightarrow> splice1 i xs ! j = xs ! Suc j"
  by (simp_all add: splice1_def nth_append min_def)

lemma mergeTodo_frame:
  "id' (mergeTodo now t u) = (case u_id u of Some v \<Rightarrow> v | None \<Rightarrow> id' t)"
  "createdAt (mergeTodo now t u) = (case u_createdAt u of Some v \<Rightarrow> v | None \<Rightarrow> createdAt t)"
  "title (mergeTodo now t u) = (case u_title u of Some v \<Rightarrow> v | None \<Rightarrow> title t)"
  "description (mergeTodo now t u) = (case u_description u of Some v \<Rightarrow> v | None \<Rightarrow> description t)"
  "tags (mergeTodo now t u) = (case u_tags u of Some v \<Rightarrow> v | None \<Rightarrow> tags t)"
  "links (mergeTodo now t u) = (case u_links u of Some v \<Rightarrow> v | None \<Rightarrow> links t)"
  "metadata (mergeTodo now t u) = (case u_metadata u of Some v \<Rightarrow> v | None \<Rightarrow> metadata t)"
  by (simp_all add: mergeTodo_def spread_def Let_def)

lemma movedItem_frame:
  "id' (movedItem now uid u q t) = id' (mergeTodo now t u)"
  "createdAt (movedItem now uid u q t) = createdAt (mergeTodo now t u)"
  "title (movedItem now uid u q t) = title (mergeTodo now t u)"
  "description (movedItem now uid u q t) = description (mergeTodo now t u)"
  "priority (movedItem now uid u q t) = priority (mergeTodo now t u)"
  "urgency (movedItem now uid u q t) = urgency (mergeTodo now t u)"
  "completed (movedItem now uid u q t) = completed (mergeTodo now t u)"
  "tags (movedItem now uid u q t) = tags (mergeTodo now t u)"
  "links (movedItem now uid u q t) = links (mergeTodo now t u)"
  "metadata (movedItem now uid u q t) = metadata (mergeTodo now t u)"
proof -
  have e: "(movedItem now uid u q t)\<lparr>completedAt := None\<rparr> = (mergeTodo now t u)\<lparr>completedAt := None\<rparr>"
    by (rule movedItem_fields)
  from arg_cong[OF e, of id'] show "id' (movedItem now uid u q t) = id' (mergeTodo now t u)" by simp
  from arg_cong[OF e, of createdAt]
  show "createdAt (movedItem now uid u q t) = createdAt (mergeTodo now t u)" by simp
  from arg_cong[OF e, of title] show "title (movedItem now uid u q t) = title (mergeTodo now t u)" by simp
  from arg_cong[OF e, of description]
  show "description (movedItem now uid u q t) = description (mergeTodo now t u)" by simp
  from arg_cong[OF e, of priority]
  show "priority (movedItem now uid u q t) = priority (mergeTodo now t u)" by simp
  from arg_cong[OF e, of urgency]
  show "urgency (movedItem now uid u q t) = urgency (mergeTodo now t u)" by simp
  from arg_cong[OF e, of completed]
  show "completed (movedItem now uid u q t) = completed (mergeTodo now t u)" by simp
  from arg_cong[OF e, of tags] show "tags (movedItem now uid u q t) = tags (mergeTodo now t u)" by simp
  from arg_cong[OF e, of links] show "links (movedItem now uid u q t) = links (mergeTodo now t u)" by simp
  from arg_cong[OF e, of metadata]
  show "metadata (movedItem now uid u q t) = metadata (mergeTodo now t u)" by simp
qed

lemma uniqueIds_disjoint:
  assumes "uniqueIds m" and "q \<noteq> q'"
  shows "id' ` set (getq m q) \<inter> id' ` set (getq m q') = {}"
  using assms by (cases q; cases q') (auto simp: uniqueIds_def allTodos_def)

lemma uniqueIds_one_quadrant:
  assumes "uniqueIds m" and "findIndex (\<lambda>t. id' t = uid) (getq m q) = Some i"
  shows "\<forall>q'. q' \<noteq> q \<longrightarrow> findIndex (\<lambda>t. id' t = uid) (getq m q') = None"
proof (intro allI impI)
  fix q' assume ne: "q' \<noteq> q"
  from findIndex_Some[OF assms(2)] have "getq m q ! i \<in> set (getq m q)" "id' (getq m q ! i) = uid"
    by simp_all
  then have "uid \<in> id' ` set (getq m q)" by force
  with uniqueIds_disjoint[OF assms(1), of q q'] ne have "uid \<notin> id' ` set (getq m q')" by blast
  then show "findIndex (\<lambda>t. id' t = uid) (getq m q') = None"
    by (auto simp: findIndex_None)
qed

lemma uniqueIds_sampleMatrix: "uniqueIds sampleMatrix"
  by (simp add: uniqueIds_def allTodos_def sampleMatrix_def sampleTodo_def)

lemma resolve_unparsed:
  assumes "parseInt (drop 1 (toUpperCase s)) = None"
  shows "resolveUserFriendlyId m s =
    (case QUADRANT_KEY_MAP (take 1 (toUpperCase s)) of None \<Rightarrow> Inr None | Some q \<Rightarrow> Inl TypeError)"
  using assms unfolding resolveUserFriendlyId_def Let_def
  by (simp split: option.splits)

lemma store_op_no_TypeError:
  assumes "\<And>m. resolveTodoId m todoId \<noteq> Inl TypeError"
  shows "fst
    (let (m, st1) = loadTodoMatrix now st in
     case resolveTodoId m todoId of
       Inl e \<Rightarrow> (Inl e, st1)
     | Inr uuid \<Rightarrow>
         (let (m', found) = F uuid m
          in if \<not> found then (Inl (NotFound uuid), st1)
             else (let (m'', st2) = saveTodoMatrix now st1 m' in (Inr m'', st2)))) \<noteq> Inl TypeError"
  using assms[of "fst (loadTodoMatrix now st)"]
  by (auto simp: case_prod_beta Let_def split: sum.splits)

lemma resolveTodoId_no_TypeError: "resolveTodoId m todoId \<noteq> Inl TypeError"
  using resolveTodoId_error[of m todoId TypeError] by auto

lemma key_map_table:
  "QUADRANT_KEY_MAP k =
    (if k = ''D'' then Some Not_Important_Not_Urgent
     else if k = ''C'' then Some Not_Important_Urgent
     else if k = ''B'' then Some Important_Not_Urgent
     else if k = ''A'' then Some Important_Urgent else None)"
  by (simp add: QUADRANT_KEY_MAP_def)

lemma toUpperChar_letters:
  "toUpperChar CHR ''a'' = CHR ''A''" "toUpperChar CHR ''b'' = CHR ''B''"
  "toUpperChar CHR ''c'' = CHR ''C''" "toUpperChar CHR ''d'' = CHR ''D''"
  "toUpperChar CHR ''A'' = CHR ''A''" "toUpperChar CHR ''B'' = CHR ''B''"
  "toUpperChar CHR ''C'' = CHR ''C''" "toUpperChar CHR ''D'' = CHR ''D''"
  by (simp_all add: toUpperChar_def)

lemma resolve_letter_case:
  "resolveUserFriendlyId m (CHR ''a'' # r) = resolveUserFriendlyId m (CHR ''A'' # r)"
  "resolveUserFriendlyId m (CHR ''b'' # r) = resolveUserFriendlyId m (CHR ''B'' # r)"
  "resolveUserFriendlyId m (CHR ''c'' # r) = resolveUserFriendlyId m (CHR ''C'' # r)"
  "resolveUserFriendlyId m (CHR ''d'' # r) = resolveUserFriendlyId m (CHR ''D'' # r)"
  by (simp_all add: resolveUserFriendlyId_def toUpperCase_def toUpperChar_letters)

lemma resolve_canonical:
  assumes "toUpperChar c = c" and "QUADRANT_KEY_MAP [c] = Some q"
  shows "resolveUserFriendlyId m (c # natToString (Suc k)) =
           (if k < length (getq m q) then Inr (Some (id' (getq m q ! k))) else Inr None)"
proof -
  let ?ds = "natToString (Suc k)"
  have ds: "list_all isDigit ?ds" "?ds \<noteq> []" using natToString_digits[of "Suc k"] by simp_all
  have up: "toUpperCase (c # ?ds) = c # ?ds"
    using toUpperCase_digits[OF ds(1)] assms(1) by (simp add: toUpperCase_def)
  have pi: "parseInt (drop 1 (toUpperCase (c # ?ds))) = Some (int (Suc k))"
    using parseInt_digits[OF ds(2) ds(1)] up by (simp add: digitsToNat_natToString)
  show ?thesis
    using resolve_parsed[OF pi, of m] up assms(2) by (simp del: getq.simps)
qed

lemma resolve_zero:
  assumes "toUpperChar c = c"
  shows "resolveUserFriendlyId m [c, CHR ''0''] = Inr None"
proof -
  have p0: "parseInt ''0'' = Some 0" by code_simp
  have "drop 1 (toUpperCase [c, CHR ''0'']) = ''0''"
    by (simp add: toUpperCase_def toUpperChar_def)
  with p0 have pi: "parseInt (drop 1 (toUpperCase [c, CHR ''0''])) = Some 0" by simp
  show ?thesis using resolve_parsed[OF pi, of m] by (simp split: option.splits)
qed

text \<open>
  Where update leaves an item whose id is carried in one sequence only: out of
  its sequence and at the end of the sequence of the computed quadrant, or in
  place. The item that ends there is \<open>movedItem\<close>.
\<close>

lemma update_located_positions:
  assumes "todoFile st = Some (Json m)"
    and "resolveTodoId m todoId = Inr uid"
    and "findIndex (\<lambda>t. id' t = uid) (getq m q) = Some i"
    and "\<forall>q'. q' \<noteq> q \<longrightarrow> findIndex (\<lambda>t. id' t = uid) (getq m q') = None"
  shows "\<exists>m1. updateTodo now st todoId u = (Inr m1, st\<lparr>todoFile := Some (Json m1)\<rparr>) \<and>
     (getQuadrantKey (mergeTodo now (getq m q ! i) u) \<noteq> q \<longrightarrow>
        getq m1 q = take i (getq m q) @ drop (Suc i) (getq m q) \<and>
        (\<forall>j. j < i \<longrightarrow> getq m1 q ! j = getq m q ! j) \<and>
        (\<forall>j. i \<le> j \<and> Suc j < length (getq m q) \<longrightarrow> getq m1 q ! j = getq m q ! Suc j) \<and>
        getq m1 (getQuadrantKey (mergeTodo now (getq m q ! i) u)) =
          getq m (getQuadrantKey (mergeTodo now (getq m q ! i) u)) @
            [movedItem now uid u q (getq m q ! i)]) \<and>
     (getQuadrantKey (mergeTodo now (getq m q ! i) u) = q \<longrightarrow>
        getq m1 q = (getq m q)[i := mergeTodo now (getq m q ! i) u]) \<and>
     (\<forall>q'. q' \<noteq> q \<and> q' \<noteq> getQuadrantKey (mergeTodo now (getq m q ! i) u) \<longrightarrow>
        getq m1 q' = getq m q') \<and>
     (\<forall>a. (movedItem now uid u q (getq m q ! i))\<lparr>completedAt := a\<rparr> =
           (mergeTodo now (getq m q ! i) u)\<lparr>completedAt := a\<rparr>) \<and>
     (u_completedAt u = None \<or> u_completed u \<noteq> Some True \<or> completed (getq m q ! i) \<longrightarrow>
        movedItem now uid u q (getq m q ! i) = mergeTodo now (getq m q ! i) u) \<and>
     (\<forall>M f q0 j. findIndex (\<lambda>t. id' t = uid) (getq M q0) = Some j \<longrightarrow>
        updateInQuadrant now uid u q0 (M, f) =
          (if getQuadrantKey (mergeTodo now (getq M q0 ! j) u) \<noteq> q0
           then (setq (setq M q0 (take j (getq M q0) @ drop (Suc j) (getq M q0)))
                   (getQuadrantKey (mergeTodo now (getq M q0 ! j) u))
                   (getq M (getQuadrantKey (mergeTodo now (getq M q0 ! j) u)) @
                      [mergeTodo now (getq M q0 ! j) u]), True)
           else (setq M q0 ((getq M q0)[j := mergeTodo now (getq M q0 ! j) u]), True)))"
proof -
  let ?xs = "getq m q"
  let ?merged = "mergeTodo now (?xs ! i) u"
  let ?nq = "getQuadrantKey ?merged"
  from assms(4) have only: "\<And>q'. q' \<noteq> q \<Longrightarrow> findIndex (\<lambda>t. id' t = uid) (getq m q') = None"
    by blast
  from findIndex_Some[OF assms(3)] have i: "i < length ?xs" by simp
  from updateTodo_located[OF assms(1,2,3) only, of now u] obtain m1 where
    run: "updateTodo now st todoId u = (Inr m1, st\<lparr>todoFile := Some (Json m1)\<rparr>)"
    and g: "\<And>q'. getq m1 q' = getq (updatedMatrix now uid u q i m) q'" by blast
  have move: "?nq \<noteq> q \<Longrightarrow> getq m1 q = splice1 i ?xs \<and>
                 getq m1 ?nq = getq m ?nq @ [movedItem now uid u q (?xs ! i)]"
    by (simp add: g getq_updatedMatrix Let_def del: getq.simps)
  have stay: "?nq = q \<Longrightarrow> getq m1 q = ?xs[i := ?merged]"
    by (simp add: g getq_updatedMatrix Let_def del: getq.simps)
  have rest: "\<And>q'. q' \<noteq> q \<Longrightarrow> q' \<noteq> ?nq \<Longrightarrow> getq m1 q' = getq m q'"
    by (simp add: g getq_updatedMatrix Let_def del: getq.simps)
  have shift: "?nq \<noteq> q \<Longrightarrow>
      (\<forall>j. j < i \<longrightarrow> getq m1 q ! j = ?xs ! j) \<and>
      (\<forall>j. i \<le> j \<and> Suc j < length ?xs \<longrightarrow> getq m1 q ! j = ?xs ! Suc j)"
    using move i by (simp add: splice1_nth del: getq.simps)
  have pass: "\<forall>M f q0 j. findIndex (\<lambda>t. id' t = uid) (getq M q0) = Some j \<longrightarrow>
        updateInQuadrant now uid u q0 (M, f) =
          (if getQuadrantKey (mergeTodo now (getq M q0 ! j) u) \<noteq> q0
           then (setq (setq M q0 (take j (getq M q0) @ drop (Suc j) (getq M q0)))
                   (getQuadrantKey (mergeTodo now (getq M q0 ! j) u))
                   (getq M (getQuadrantKey (mergeTodo now (getq M q0 ! j) u)) @
                      [mergeTodo now (getq M q0 ! j) u]), True)
           else (setq M q0 ((getq M q0)[j := mergeTodo now (getq M q0 ! j) u]), True))"
    by (simp add: updateInQuadrant_hit Let_def splice1_def del: getq.simps setq.simps)
  from run move stay rest shift movedItem_fields[of _ now uid u q "?xs ! i"]
       movedItem_same[of u "?xs ! i" now uid q]
  have "updateTodo now st todoId u = (Inr m1, st\<lparr>todoFile := Some (Json m1)\<rparr>) \<and>
     (?nq \<noteq> q \<longrightarrow>
        getq m1 q = take i ?xs @ drop (Suc i) ?xs \<and>
        (\<forall>j. j < i \<longrightarrow> getq m1 q ! j = ?xs ! j) \<and>
        (\<forall>j. i \<le> j \<and> Suc j < length ?xs \<longrightarrow> getq m1 q ! j = ?xs ! Suc j) \<and>
        getq m1 ?nq = getq m ?nq @ [movedItem now uid u q (?xs ! i)]) \<and>
     (?nq = q \<longrightarrow> getq m1 q = ?xs[i := ?merged]) \<and>
     (\<forall>q'. q' \<noteq> q \<and> q' \<noteq> ?nq \<longrightarrow> getq m1 q' = getq m q') \<and>
     (\<forall>a. (movedItem now uid u q (?xs ! i))\<lparr>completedAt := a\<rparr> = ?merged\<lparr>completedAt := a\<rparr>) \<and>
     (u_completedAt u = None \<or> u_completed u \<noteq> Some True \<or> completed (?xs ! i) \<longrightarrow>
        movedItem now uid u q (?xs ! i) = ?merged)"
    by (simp add: splice1_def del: getq.simps)
  with pass show ?thesis by (intro exI[of _ m1]) (elim conjE, intro conjI; assumption)
qed

section \<open>The claims\<close>

text \<open>
  C1. After any sequence of add, update, toggle and delete operations, started
  on a store with no file or with the empty matrix, every item of the stored
  matrix lies in exactly one of the four sequences, and that sequence is the
  one that the quadrant mapping computes from the item's priority and urgency:
  high and urgent to \<open>important_urgent\<close>, high and not urgent to
  \<open>important_not_urgent\<close>, low and urgent to \<open>not_important_urgent\<close>, low and not
  urgent to \<open>not_important_not_urgent\<close>.
\<close>

theorem quadrant_consistency_invariant:
  assumes "todoFile st0 = None \<or> todoFile st0 = Some (Json (defaultMatrix t0))"
    and "todoFile (run ops st0) = Some (Json m)"
  shows "(\<forall>q. \<forall>t\<in>set (getq m q). getQuadrantKey t = q) \<and>
         (\<forall>t\<in>set (allTodos m). \<exists>!q. t \<in> set (getq m q)) \<and>
         (\<forall>t. (priority t = ''high'' \<and> urgency t = ''urgent'' \<longrightarrow>
                 getQuadrantKey t = Important_Urgent) \<and>
              (priority t = ''high'' \<and> urgency t = ''not-urgent'' \<longrightarrow>
                 getQuadrantKey t = Important_Not_Urgent) \<and>
              (priority t = ''low'' \<and> urgency t = ''urgent'' \<longrightarrow>
                 getQuadrantKey t = Not_Important_Urgent) \<and>
              (priority t = ''low'' \<and> urgency t = ''not-urgent'' \<longrightarrow>
                 getQuadrantKey t = Not_Important_Not_Urgent))"
proof -
  have "consistent (defaultMatrix t0)"
    by (simp add: consistent_def defaultMatrix_def quadrantOrder_def)
  with assms(1) have "storeConsistent st0" by (auto simp: storeConsistent_def)
  from run_storeConsistent[OF this, of ops] assms(2) have c: "consistent m"
    by (simp add: storeConsistent_def)
  then have 1: "\<forall>q. \<forall>t\<in>set (getq m q). getQuadrantKey t = q" by (simp add: consistent_iff)
  from c have 2: "\<forall>t\<in>set (allTodos m). \<exists>!q. t \<in> set (getq m q)"
    using consistent_unique_quadrant by blast
  have 3: "\<forall>t. (priority t = ''high'' \<and> urgency t = ''urgent'' \<longrightarrow>
                 getQuadrantKey t = Important_Urgent) \<and>
              (priority t = ''high'' \<and> urgency t = ''not-urgent'' \<longrightarrow>
                 getQuadrantKey t = Important_Not_Urgent) \<and>
              (priority t = ''low'' \<and> urgency t = ''urgent'' \<longrightarrow>
                 getQuadrantKey t = Not_Important_Urgent) \<and>
              (priority t = ''low'' \<and> urgency t = ''not-urgent'' \<longrightarrow>
                 getQuadrantKey t = Not_Important_Not_Urgent)"
    by (simp add: getQuadrantKey_def)
  from 1 2 3 show ?thesis by blast
qed

theorem quadrant_consistency_invariant_witness:
  "todoFile emptyStore = None \<and>
   todoFile (run sampleRun emptyStore) = Some (Json sampleFinal) \<and>
   consistent sampleFinal"
proof -
  have a: "todoFile emptyStore = None \<or> todoFile emptyStore = Some (Json (defaultMatrix 0))"
    by (simp add: emptyStore_def)
  have b: "todoFile (run sampleRun emptyStore) = Some (Json sampleFinal)" by code_simp
  from quadrant_consistency_invariant[OF a b]
  have "\<forall>q. \<forall>t\<in>set (getq sampleFinal q). getQuadrantKey t = q" by blast
  then have "consistent sampleFinal" by (simp add: consistent_iff)
  with b show ?thesis by (simp add: emptyStore_def)
qed

text \<open>
  C2. For every matrix in which each item lies in the sequence of the quadrant
  computed from its own priority and urgency, and every item in it, resolving
  the display id generated for the item gives the item's id; the generated
  display id has the shape that the entry points test for. (Unique ids are
  not needed: the generated position is that of the first item with this id.)
\<close>

theorem display_id_round_trip:
  assumes "consistent m" and "t \<in> set (allTodos m)"
  shows "resolveUserFriendlyId m (generateDisplayId m t) = Inr (Some (id' t)) \<and>
         isUserFriendlyId (generateDisplayId m t)"
proof -
  let ?q = "getQuadrantKey t"
  from assms have mem: "t \<in> set (getq m ?q)"
    by (auto simp: set_allTodos consistent_iff)
  from findIndex_mem[OF mem, of "\<lambda>x. id' x = id' t"] obtain p where
    p: "findIndex (\<lambda>x. id' x = id' t) (getq m ?q) = Some p" "p < length (getq m ?q)"
       "id' (getq m ?q ! p) = id' t" by auto
  from prefix_of_quadrant[of ?q] obtain c where
    c: "QUADRANT_PREFIX_MAP ?q = Some c" "toUpperChar c = c" "c \<in> set ''ABCDabcd''"
       "QUADRANT_KEY_MAP [c] = Some ?q" by blast
  let ?ds = "natToString (p + 1)"
  have g: "generateDisplayId m t = c # ?ds"
    using p(1) c(1) by (simp add: generateDisplayId_def)
  have ds: "list_all isDigit ?ds" "?ds \<noteq> []" using natToString_digits[of "p + 1"] by simp_all
  have up: "toUpperCase (c # ?ds) = c # ?ds"
    using toUpperCase_digits[OF ds(1)] c(2) by (simp add: toUpperCase_def)
  have pi: "parseInt (drop 1 (toUpperCase (c # ?ds))) = Some (int (p + 1))"
    using parseInt_digits[OF ds(2) ds(1)] up by (simp add: digitsToNat_natToString)
  have "resolveUserFriendlyId m (c # ?ds) = Inr (Some (id' (getq m ?q ! p)))"
    using resolve_parsed[OF pi, of m] up c(4) p(2) by simp
  moreover have "isUserFriendlyId (c # ?ds)"
    using c(3) ds by (simp add: isUserFriendlyId_def)
  ultimately show ?thesis using g p(3) by simp
qed

theorem display_id_round_trip_witness:
  "consistent sampleMatrix \<and> sampleTodo ''id-2'' ''high'' ''urgent'' \<in> set (allTodos sampleMatrix) \<and>
   resolveUserFriendlyId sampleMatrix
     (generateDisplayId sampleMatrix (sampleTodo ''id-2'' ''high'' ''urgent'')) = Inr (Some ''id-2'')"
proof -
  have c: "consistent sampleMatrix" by code_simp
  have t: "sampleTodo ''id-2'' ''high'' ''urgent'' \<in> set (allTodos sampleMatrix)"
    by (simp add: allTodos_def sampleMatrix_def)
  from display_id_round_trip[OF c t] c t show ?thesis by (simp add: sampleTodo_def)
qed

text \<open>
  C3. The claim: when the patched priority and urgency compute to another
  quadrant, update removes the item from its sequence and appends the merged
  item at the end of the new quadrant's sequence. The positions are as
  claimed, but the appended item is not always the merged item: a patch that
  completes an incomplete item and names a \<open>completedAt\<close> of its own is merged
  with \<open>completedAt\<close> set to the clock (9 here), and when the item moves to a
  quadrant that is visited later (from A to C), the call for that quadrant
  finds the item again and spreads the patch over it once more, which leaves
  the patch's \<open>completedAt\<close> (3) in the stored item. The same patch on an item
  that moves to a quadrant visited earlier (from C to A) stores the merged
  item, with \<open>completedAt\<close> 9.
\<close>

theorem update_move_remerge_failing_input:
  "getq sampleMatrix Important_Urgent ! 1 = sampleTodo ''id-2'' ''high'' ''urgent'' \<and>
   mergeTodo 9 (sampleTodo ''id-2'' ''high'' ''urgent'') (completingPatch ''low'') =
     (sampleTodo ''id-2'' ''low'' ''urgent'')\<lparr>completed := True, completedAt := Some 9\<rparr> \<and>
   fst (updateTodo 9 sampleStore ''A2'' (completingPatch ''low'')) =
     Inr (sampleMatrix
           \<lparr>important_urgent :=
              [sampleTodo ''id-1'' ''high'' ''urgent'', sampleTodo ''id-3'' ''high'' ''urgent''],
            not_important_urgent :=
              [sampleTodo ''id-5'' ''low'' ''urgent'',
               (sampleTodo ''id-2'' ''low'' ''urgent'')\<lparr>completed := True, completedAt := Some 3\<rparr>],
            stats := \<lparr> total_s = 6, completed_s = 1, active_s = 5 \<rparr>,
            lastUpdated := 9\<rparr>) \<and>
   getq sampleMatrix Not_Important_Urgent ! 0 = sampleTodo ''id-5'' ''low'' ''urgent'' \<and>
   mergeTodo 9 (sampleTodo ''id-5'' ''low'' ''urgent'') (completingPatch ''high'') =
     (sampleTodo ''id-5'' ''high'' ''urgent'')\<lparr>completed := True, completedAt := Some 9\<rparr> \<and>
   fst (updateTodo 9 sampleStore ''C1'' (completingPatch ''high'')) =
     Inr (sampleMatrix
           \<lparr>important_urgent :=
              [sampleTodo ''id-1'' ''high'' ''urgent'', sampleTodo ''id-2'' ''high'' ''urgent'',
               sampleTodo ''id-3'' ''high'' ''urgent'',
               (sampleTodo ''id-5'' ''high'' ''urgent'')\<lparr>completed := True, completedAt := Some 9\<rparr>],
            not_important_urgent := [],
            stats := \<lparr> total_s = 6, completed_s = 1, active_s = 5 \<rparr>,
            lastUpdated := 9\<rparr>)"
  by code_simp

text \<open>
  C4. For every stored matrix and every item that toggle locates (the first
  item of a sequence that carries the id, given as such or through a display
  id), toggling an incomplete item makes it complete and sets \<open>completedAt\<close> to
  the clock reading of the toggle, which is not null and is at least
  \<open>createdAt\<close> when that reading is not earlier than \<open>createdAt\<close>; toggling a
  complete item makes it incomplete and clears \<open>completedAt\<close>; nothing else of
  the item changes. Toggling twice returns \<open>completed\<close> to its first value;
  \<open>completedAt\<close> is then null when the item was incomplete at first, and the
  clock reading of the second toggle when it was complete at first.
\<close>

theorem toggle_completion_timestamps:
  assumes "todoFile st = Some (Json m)"
    and "resolveTodoId m todoId = Inr uid"
    and "findIndex (\<lambda>t. id' t = uid) (getq m q) = Some i"
  shows "\<exists>m1 m2.
     toggleTodo now st todoId = (Inr m1, st\<lparr>todoFile := Some (Json m1)\<rparr>) \<and>
     getq m1 q ! i =
       (getq m q ! i)\<lparr>completed := \<not> completed (getq m q ! i),
                       completedAt := if completed (getq m q ! i) then None else Some now\<rparr> \<and>
     (\<not> completed (getq m q ! i) \<and> createdAt (getq m q ! i) \<le> now \<longrightarrow>
        (\<exists>ts. completedAt (getq m1 q ! i) = Some ts \<and> createdAt (getq m1 q ! i) \<le> ts)) \<and>
     toggleTodo now2 (st\<lparr>todoFile := Some (Json m1)\<rparr>) todoId =
       (Inr m2, st\<lparr>todoFile := Some (Json m2)\<rparr>) \<and>
     getq m2 q ! i =
       (getq m q ! i)\<lparr>completedAt := if completed (getq m q ! i) then Some now2 else None\<rparr>"
proof -
  let ?P = "\<lambda>t. id' t = uid"
  have hit: "findIndex ?P (getq m q) \<noteq> None" using assms(3) by simp
  from toggleTodo_found[OF assms(1,2) hit, of now] obtain m1 where
    m1: "toggleTodo now st todoId = (Inr m1, st\<lparr>todoFile := Some (Json m1)\<rparr>)"
        "\<And>q. getq m1 q = toggledSeq now uid (getq m q)" by blast
  have ids: "\<And>q. map id' (getq m1 q) = map id' (getq m q)"
    by (simp add: m1(2) toggledSeq_ids del: getq.simps)
  have res1: "resolveTodoId m1 todoId = Inr uid"
    using resolveTodoId_ids_cong[of m1 m, OF ids] assms(2) by simp
  have loc1: "findIndex ?P (getq m1 q) = Some i"
    using findIndex_ids_cong[OF ids, of uid q] assms(3) by simp
  then have hit1: "findIndex ?P (getq m1 q) \<noteq> None" by simp
  have file1: "todoFile (st\<lparr>todoFile := Some (Json m1)\<rparr>) = Some (Json m1)" by simp
  from toggleTodo_found[OF file1 res1 hit1, of now2] obtain m2 where
    m2: "toggleTodo now2 (st\<lparr>todoFile := Some (Json m1)\<rparr>) todoId =
           (Inr m2, st\<lparr>todoFile := Some (Json m2)\<rparr>)"
        "\<And>q. getq m2 q = toggledSeq now2 uid (getq m1 q)" by auto
  have n1: "getq m1 q ! i =
       (getq m q ! i)\<lparr>completed := \<not> completed (getq m q ! i),
                       completedAt := if completed (getq m q ! i) then None else Some now\<rparr>"
    using toggledSeq_nth[OF assms(3), of now] by (simp add: m1(2) del: getq.simps)
  have n2: "getq m2 q ! i =
       (getq m1 q ! i)\<lparr>completed := \<not> completed (getq m1 q ! i),
                       completedAt := if completed (getq m1 q ! i) then None else Some now2\<rparr>"
    using toggledSeq_nth[OF loc1, of now2] by (simp add: m2(2) del: getq.simps)
  have n2': "getq m2 q ! i =
       (getq m q ! i)\<lparr>completedAt := if completed (getq m q ! i) then Some now2 else None\<rparr>"
    unfolding n2 n1 by simp
  from m1(1) m2(1) n1 n2' show ?thesis by (intro exI[of _ m1] exI[of _ m2]) simp
qed

theorem toggle_completion_timestamps_witness:
  "todoFile sampleStore = Some (Json sampleMatrix) \<and>
   resolveTodoId sampleMatrix ''a2'' = Inr ''id-2'' \<and>
   findIndex (\<lambda>t. id' t = ''id-2'') (getq sampleMatrix Important_Urgent) = Some 1 \<and>
   (\<exists>m1 m2.
      toggleTodo 9 sampleStore ''a2'' = (Inr m1, sampleStore\<lparr>todoFile := Some (Json m1)\<rparr>) \<and>
      completed (getq m1 Important_Urgent ! 1) \<and>
      completedAt (getq m1 Important_Urgent ! 1) = Some 9 \<and>
      toggleTodo 12 (sampleStore\<lparr>todoFile := Some (Json m1)\<rparr>) ''a2'' =
        (Inr m2, sampleStore\<lparr>todoFile := Some (Json m2)\<rparr>) \<and>
      \<not> completed (getq m2 Important_Urgent ! 1) \<and>
      completedAt (getq m2 Important_Urgent ! 1) = None)"
proof -
  have f: "todoFile sampleStore = Some (Json sampleMatrix)" by (simp add: sampleStore_def)
  have r: "resolveTodoId sampleMatrix ''a2'' = Inr ''id-2''" by code_simp
  have l: "findIndex (\<lambda>t. id' t = ''id-2'') (getq sampleMatrix Important_Urgent) = Some 1"
    by (simp add: sampleMatrix_def sampleTodo_def)
  have c: "\<not> completed (getq sampleMatrix Important_Urgent ! 1)"
    by (simp add: sampleMatrix_def sampleTodo_def)
  from toggle_completion_timestamps[OF f r l, of 9 12] obtain m1 m2 where
    "toggleTodo 9 sampleStore ''a2'' = (Inr m1, sampleStore\<lparr>todoFile := Some (Json m1)\<rparr>)"
    "getq m1 Important_Urgent ! 1 =
       (getq sampleMatrix Important_Urgent ! 1)\<lparr>completed := \<not> completed (getq sampleMatrix Important_Urgent ! 1),
          completedAt := if completed (getq sampleMatrix Important_Urgent ! 1) then None else Some 9\<rparr>"
    "toggleTodo 12 (sampleStore\<lparr>todoFile := Some (Json m1)\<rparr>) ''a2'' =
        (Inr m2, sampleStore\<lparr>todoFile := Some (Json m2)\<rparr>)"
    "getq m2 Important_Urgent ! 1 =
       (getq sampleMatrix Important_Urgent ! 1)\<lparr>completedAt := if completed (getq sampleMatrix Important_Urgent ! 1) then Some 12 else None\<rparr>"
    by blast
  with c have "toggleTodo 9 sampleStore ''a2'' = (Inr m1, sampleStore\<lparr>todoFile := Some (Json m1)\<rparr>) \<and>
      completed (getq m1 Important_Urgent ! 1) \<and>
      completedAt (getq m1 Important_Urgent ! 1) = Some 9 \<and>
      toggleTodo 12 (sampleStore\<lparr>todoFile := Some (Json m1)\<rparr>) ''a2'' =
        (Inr m2, sampleStore\<lparr>todoFile := Some (Json m2)\<rparr>) \<and>
      \<not> completed (getq m2 Important_Urgent ! 1) \<and>
      completedAt (getq m2 Important_Urgent ! 1) = None"
    by (simp del: getq.simps)
  then show ?thesis using f r l by blast
qed

theorem toggle_twice_counterexample:
  "toggleTodo 8 (snd (toggleTodo 7 (soloStore doneTodo) ''id-9'')) ''id-9'' =
     (Inr ((setq (defaultMatrix 8) Not_Important_Not_Urgent [doneTodo\<lparr>completedAt := Some 8\<rparr>])
             \<lparr>stats := \<lparr> total_s = 1, completed_s = 1, active_s = 0 \<rparr>\<rparr>),
      \<lparr> todoFile = Some (Json ((setq (defaultMatrix 8) Not_Important_Not_Urgent
                                   [doneTodo\<lparr>completedAt := Some 8\<rparr>])
             \<lparr>stats := \<lparr> total_s = 1, completed_s = 1, active_s = 0 \<rparr>\<rparr>)),
        warnings = [] \<rparr>) \<and>
   completedAt doneTodo = Some 6 \<and> completed doneTodo \<and>
   toggleTodo 2 (soloStore (sampleTodo ''id-9'' ''low'' ''not-urgent'')) ''id-9'' =
     (Inr ((setq (defaultMatrix 2) Not_Important_Not_Urgent
              [(sampleTodo ''id-9'' ''low'' ''not-urgent'')\<lparr>completed := True, completedAt := Some 2\<rparr>])
             \<lparr>stats := \<lparr> total_s = 1, completed_s = 1, active_s = 0 \<rparr>\<rparr>),
      \<lparr> todoFile = Some (Json ((setq (defaultMatrix 2) Not_Important_Not_Urgent
              [(sampleTodo ''id-9'' ''low'' ''not-urgent'')\<lparr>completed := True, completedAt := Some 2\<rparr>])
             \<lparr>stats := \<lparr> total_s = 1, completed_s = 1, active_s = 0 \<rparr>\<rparr>)),
        warnings = [] \<rparr>) \<and>
   createdAt (sampleTodo ''id-9'' ''low'' ''not-urgent'') = 5"
  by code_simp

text \<open>
  C5. For every stored matrix, every id carried in it (in one sequence only,
  as it is when ids are unique) and every patch that names neither \<open>id\<close> nor
  \<open>createdAt\<close>, update leaves the \<open>id\<close> and \<open>createdAt\<close> of the located item as
  they were; each other field
  keeps its value unless the patch names it, and \<open>completedAt\<close> keeps its value
  unless the patch names it or \<open>completed\<close>.
\<close>

theorem update_keeps_identity_fields:
  assumes "todoFile st = Some (Json m)"
    and "resolveTodoId m todoId = Inr uid"
    and "findIndex (\<lambda>t. id' t = uid) (getq m q) = Some i"
    and "\<forall>q'. q' \<noteq> q \<longrightarrow> findIndex (\<lambda>t. id' t = uid) (getq m q') = None"
    and "u_id u = None" and "u_createdAt u = None"
  shows "\<exists>m1 t1. updateTodo now st todoId u = (Inr m1, st\<lparr>todoFile := Some (Json m1)\<rparr>) \<and>
     t1 = (if getQuadrantKey (mergeTodo now (getq m q ! i) u) = q then getq m1 q ! i
           else last (getq m1 (getQuadrantKey (mergeTodo now (getq m q ! i) u)))) \<and>
     id' t1 = id' (getq m q ! i) \<and>
     createdAt t1 = createdAt (getq m q ! i) \<and>
     (u_title u = None \<longrightarrow> title t1 = title (getq m q ! i)) \<and>
     (u_description u = None \<longrightarrow> description t1 = description (getq m q ! i)) \<and>
     (u_priority u = None \<longrightarrow> priority t1 = priority (getq m q ! i)) \<and>
     (u_urgency u = None \<longrightarrow> urgency t1 = urgency (getq m q ! i)) \<and>
     (u_completed u = None \<longrightarrow> completed t1 = completed (getq m q ! i)) \<and>
     (u_tags u = None \<longrightarrow> tags t1 = tags (getq m q ! i)) \<and>
     (u_links u = None \<longrightarrow> links t1 = links (getq m q ! i)) \<and>
     (u_metadata u = None \<longrightarrow> metadata t1 = metadata (getq m q ! i)) \<and>
     (u_completed u = None \<and> u_completedAt u = None \<longrightarrow>
        completedAt t1 = completedAt (getq m q ! i))"
proof -
  let ?old = "getq m q ! i"
  let ?merged = "mergeTodo now ?old u"
  let ?nq = "getQuadrantKey ?merged"
  from assms(4) have only: "\<And>q'. q' \<noteq> q \<Longrightarrow> findIndex (\<lambda>t. id' t = uid) (getq m q') = None"
    by blast
  from findIndex_Some[OF assms(3)] have i: "i < length (getq m q)" by simp
  from updateTodo_located[OF assms(1,2,3) only, of now u] obtain m1 where
    run: "updateTodo now st todoId u = (Inr m1, st\<lparr>todoFile := Some (Json m1)\<rparr>)"
    and g: "\<And>q'. getq m1 q' = getq (updatedMatrix now uid u q i m) q'" by blast
  let ?t1 = "if ?nq = q then getq m1 q ! i else last (getq m1 ?nq)"
  have t1: "?t1 = (if ?nq = q then ?merged else movedItem now uid u q ?old)"
    using i by (simp add: g getq_updatedMatrix Let_def del: getq.simps)
  have cAt: "u_completedAt u = None \<Longrightarrow> movedItem now uid u q ?old = ?merged"
    by (simp add: movedItem_same)
  have "id' ?t1 = id' ?old" "createdAt ?t1 = createdAt ?old"
    unfolding t1 using assms(5,6) by (simp_all add: movedItem_frame mergeTodo_frame)
  moreover have "u_title u = None \<longrightarrow> title ?t1 = title ?old"
    "u_description u = None \<longrightarrow> description ?t1 = description ?old"
    "u_priority u = None \<longrightarrow> priority ?t1 = priority ?old"
    "u_urgency u = None \<longrightarrow> urgency ?t1 = urgency ?old"
    "u_completed u = None \<longrightarrow> completed ?t1 = completed ?old"
    "u_tags u = None \<longrightarrow> tags ?t1 = tags ?old"
    "u_links u = None \<longrightarrow> links ?t1 = links ?old"
    "u_metadata u = None \<longrightarrow> metadata ?t1 = metadata ?old"
    unfolding t1
    by (simp_all add: movedItem_frame mergeTodo_frame mergeTodo_priority mergeTodo_completed)
  moreover have "u_completed u = None \<and> u_completedAt u = None \<longrightarrow>
        completedAt ?t1 = completedAt ?old"
    unfolding t1 using cAt by (simp add: mergeTodo_completedAt)
  ultimately show ?thesis using run by (intro exI[of _ m1] exI[of _ ?t1]) simp
qed

theorem update_keeps_identity_fields_witness:
  "todoFile sampleStore = Some (Json sampleMatrix) \<and>
   resolveTodoId sampleMatrix ''A2'' = Inr ''id-2'' \<and>
   findIndex (\<lambda>t. id' t = ''id-2'') (getq sampleMatrix Important_Urgent) = Some 1 \<and>
   (\<exists>m1. updateTodo 9 sampleStore ''A2'' (emptyUpdates\<lparr>u_priority := Some ''low''\<rparr>) =
            (Inr m1, sampleStore\<lparr>todoFile := Some (Json m1)\<rparr>) \<and>
          id' (last (getq m1 Not_Important_Urgent)) = ''id-2'' \<and>
          createdAt (last (getq m1 Not_Important_Urgent)) = 5)"
proof -
  let ?u = "emptyUpdates\<lparr>u_priority := Some ''low''\<rparr>"
  have f: "todoFile sampleStore = Some (Json sampleMatrix)" by (simp add: sampleStore_def)
  have r: "resolveTodoId sampleMatrix ''A2'' = Inr ''id-2''" by code_simp
  have l: "findIndex (\<lambda>t. id' t = ''id-2'') (getq sampleMatrix Important_Urgent) = Some 1"
    by (simp add: sampleMatrix_def sampleTodo_def)
  have n: "u_id ?u = None" "u_createdAt ?u = None" by (simp_all add: emptyUpdates_def)
  have old: "getq sampleMatrix Important_Urgent ! 1 = sampleTodo ''id-2'' ''high'' ''urgent''"
    by (simp add: sampleMatrix_def)
  have k: "getQuadrantKey (mergeTodo 9 (sampleTodo ''id-2'' ''high'' ''urgent'') ?u) = Not_Important_Urgent"
    by (simp add: getQuadrantKey_def mergeTodo_def spread_def emptyUpdates_def sampleTodo_def)
  have o: "id' (sampleTodo ''id-2'' ''high'' ''urgent'') = ''id-2''"
    "createdAt (sampleTodo ''id-2'' ''high'' ''urgent'') = 5" by (simp_all add: sampleTodo_def)
  from update_keeps_identity_fields[OF f r l uniqueIds_one_quadrant[OF uniqueIds_sampleMatrix l] n, of 9]
  show ?thesis unfolding old k o using f r l by auto
qed

theorem update_overwrites_id_counterexample:
  "fst (updateTodo 9 sampleStore ''id-4''
          (emptyUpdates\<lparr>u_id := Some ''other'', u_createdAt := Some 1\<rparr>)) =
     Inr (sampleMatrix\<lparr>important_not_urgent :=
                         [(sampleTodo ''other'' ''high'' ''not-urgent'')\<lparr>createdAt := 1\<rparr>],
                       lastUpdated := 9\<rparr>) \<and>
   getq sampleMatrix Important_Not_Urgent = [sampleTodo ''id-4'' ''high'' ''not-urgent''] \<and>
   createdAt (sampleTodo ''id-4'' ''high'' ''not-urgent'') = 5"
  by code_simp

text \<open>
  C6. For every matrix and every string, resolution reads the letter and the
  1-based index without regard to case, and returns \<open>null\<close> exactly when the
  letter is not one of A, B, C, D, or the index is not positive, or the index
  exceeds the length of the sequence that the letter stands for (A for
  \<open>important_urgent\<close>, B for \<open>important_not_urgent\<close>, C for
  \<open>not_important_urgent\<close>, D for \<open>not_important_not_urgent\<close>); when the letter
  is one of the four and the index lies within that sequence, it returns the
  id of the item at that 1-based position. In particular a letter followed by
  the decimal text of \<open>k + 1\<close> gives the id at position \<open>k\<close> of the letter's
  sequence, or \<open>null\<close> past its end, and a letter followed by 0 gives \<open>null\<close>.
\<close>

theorem resolve_failure_conditions:
  "(resolveUserFriendlyId m s = Inr None \<longleftrightarrow>
      (take 1 (toUpperCase s) \<notin> {''A'', ''B'', ''C'', ''D''} \<or>
       (\<exists>n. parseInt (drop 1 (toUpperCase s)) = Some n \<and>
            (n \<le> 0 \<or>
             take 1 (toUpperCase s) = ''A'' \<and> int (length (important_urgent m)) < n \<or>
             take 1 (toUpperCase s) = ''B'' \<and> int (length (important_not_urgent m)) < n \<or>
             take 1 (toUpperCase s) = ''C'' \<and> int (length (not_important_urgent m)) < n \<or>
             take 1 (toUpperCase s) = ''D'' \<and> int (length (not_important_not_urgent m)) < n)))) \<and>
   (\<forall>n. parseInt (drop 1 (toUpperCase s)) = Some n \<and> 0 < n \<longrightarrow>
      (take 1 (toUpperCase s) = ''A'' \<and> n \<le> int (length (important_urgent m)) \<longrightarrow>
         resolveUserFriendlyId m s = Inr (Some (id' (important_urgent m ! nat (n - 1))))) \<and>
      (take 1 (toUpperCase s) = ''B'' \<and> n \<le> int (length (important_not_urgent m)) \<longrightarrow>
         resolveUserFriendlyId m s = Inr (Some (id' (important_not_urgent m ! nat (n - 1))))) \<and>
      (take 1 (toUpperCase s) = ''C'' \<and> n \<le> int (length (not_important_urgent m)) \<longrightarrow>
         resolveUserFriendlyId m s = Inr (Some (id' (not_important_urgent m ! nat (n - 1))))) \<and>
      (take 1 (toUpperCase s) = ''D'' \<and> n \<le> int (length (not_important_not_urgent m)) \<longrightarrow>
         resolveUserFriendlyId m s =
           Inr (Some (id' (not_important_not_urgent m ! nat (n - 1)))))) \<and>
   resolveUserFriendlyId m (toUpperCase s) = resolveUserFriendlyId m s \<and>
   resolveUserFriendlyId m (CHR ''a'' # r) = resolveUserFriendlyId m (CHR ''A'' # r) \<and>
   resolveUserFriendlyId m (CHR ''b'' # r) = resolveUserFriendlyId m (CHR ''B'' # r) \<and>
   resolveUserFriendlyId m (CHR ''c'' # r) = resolveUserFriendlyId m (CHR ''C'' # r) \<and>
   resolveUserFriendlyId m (CHR ''d'' # r) = resolveUserFriendlyId m (CHR ''D'' # r) \<and>
   resolveUserFriendlyId m (CHR ''A'' # natToString (Suc k)) =
     (if k < length (important_urgent m) then Inr (Some (id' (important_urgent m ! k)))
      else Inr None) \<and>
   resolveUserFriendlyId m (CHR ''B'' # natToString (Suc k)) =
     (if k < length (important_not_urgent m) then Inr (Some (id' (important_not_urgent m ! k)))
      else Inr None) \<and>
   resolveUserFriendlyId m (CHR ''C'' # natToString (Suc k)) =
     (if k < length (not_important_urgent m) then Inr (Some (id' (not_important_urgent m ! k)))
      else Inr None) \<and>
   resolveUserFriendlyId m (CHR ''D'' # natToString (Suc k)) =
     (if k < length (not_important_not_urgent m)
      then Inr (Some (id' (not_important_not_urgent m ! k))) else Inr None) \<and>
   resolveUserFriendlyId m ''A0'' = Inr None \<and> resolveUserFriendlyId m ''B0'' = Inr None \<and>
   resolveUserFriendlyId m ''C0'' = Inr None \<and> resolveUserFriendlyId m ''D0'' = Inr None \<and>
   QUADRANT_KEY_MAP ''A'' = Some Important_Urgent \<and>
   QUADRANT_KEY_MAP ''B'' = Some Important_Not_Urgent \<and>
   QUADRANT_KEY_MAP ''C'' = Some Not_Important_Urgent \<and>
   QUADRANT_KEY_MAP ''D'' = Some Not_Important_Not_Urgent \<and>
   dom QUADRANT_KEY_MAP = {''A'', ''B'', ''C'', ''D''}"
proof -
  let ?L = "take 1 (toUpperCase s)"
  let ?p = "parseInt (drop 1 (toUpperCase s))"
  have same: "resolveUserFriendlyId m (toUpperCase s) = resolveUserFriendlyId m s"
    by (simp add: resolveUserFriendlyId_def toUpperCase_idem)
  have null: "resolveUserFriendlyId m s = Inr None \<longleftrightarrow>
      (?L \<notin> {''A'', ''B'', ''C'', ''D''} \<or>
       (\<exists>n. ?p = Some n \<and>
            (n \<le> 0 \<or>
             ?L = ''A'' \<and> int (length (important_urgent m)) < n \<or>
             ?L = ''B'' \<and> int (length (important_not_urgent m)) < n \<or>
             ?L = ''C'' \<and> int (length (not_important_urgent m)) < n \<or>
             ?L = ''D'' \<and> int (length (not_important_not_urgent m)) < n)))"
  proof (cases ?p)
    case None
    show ?thesis unfolding resolve_unparsed[OF None] key_map_table using None by simp
  next
    case (Some n)
    show ?thesis unfolding resolve_parsed[OF Some] key_map_table using Some by simp
  qed
  have item: "\<forall>n. ?p = Some n \<and> 0 < n \<longrightarrow>
      (?L = ''A'' \<and> n \<le> int (length (important_urgent m)) \<longrightarrow>
         resolveUserFriendlyId m s = Inr (Some (id' (important_urgent m ! nat (n - 1))))) \<and>
      (?L = ''B'' \<and> n \<le> int (length (important_not_urgent m)) \<longrightarrow>
         resolveUserFriendlyId m s = Inr (Some (id' (important_not_urgent m ! nat (n - 1))))) \<and>
      (?L = ''C'' \<and> n \<le> int (length (not_important_urgent m)) \<longrightarrow>
         resolveUserFriendlyId m s = Inr (Some (id' (not_important_urgent m ! nat (n - 1))))) \<and>
      (?L = ''D'' \<and> n \<le> int (length (not_important_not_urgent m)) \<longrightarrow>
         resolveUserFriendlyId m s =
           Inr (Some (id' (not_important_not_urgent m ! nat (n - 1)))))"
  proof (intro allI impI)
    fix n assume "?p = Some n \<and> 0 < n"
    then have p: "?p = Some n" and n: "0 < n" by simp_all
    show "(?L = ''A'' \<and> n \<le> int (length (important_urgent m)) \<longrightarrow>
         resolveUserFriendlyId m s = Inr (Some (id' (important_urgent m ! nat (n - 1))))) \<and>
      (?L = ''B'' \<and> n \<le> int (length (important_not_urgent m)) \<longrightarrow>
         resolveUserFriendlyId m s = Inr (Some (id' (important_not_urgent m ! nat (n - 1))))) \<and>
      (?L = ''C'' \<and> n \<le> int (length (not_important_urgent m)) \<longrightarrow>
         resolveUserFriendlyId m s = Inr (Some (id' (not_important_urgent m ! nat (n - 1))))) \<and>
      (?L = ''D'' \<and> n \<le> int (length (not_important_not_urgent m)) \<longrightarrow>
         resolveUserFriendlyId m s =
           Inr (Some (id' (not_important_not_urgent m ! nat (n - 1)))))"
      unfolding resolve_parsed[OF p] key_map_table using n by simp
  qed
  have tab: "QUADRANT_KEY_MAP ''A'' = Some Important_Urgent"
    "QUADRANT_KEY_MAP ''B'' = Some Important_Not_Urgent"
    "QUADRANT_KEY_MAP ''C'' = Some Not_Important_Urgent"
    "QUADRANT_KEY_MAP ''D'' = Some Not_Important_Not_Urgent"
    by (simp_all add: key_map_table)
  have can: "resolveUserFriendlyId m (CHR ''A'' # natToString (Suc k)) =
     (if k < length (important_urgent m) then Inr (Some (id' (important_urgent m ! k)))
      else Inr None)"
    "resolveUserFriendlyId m (CHR ''B'' # natToString (Suc k)) =
     (if k < length (important_not_urgent m) then Inr (Some (id' (important_not_urgent m ! k)))
      else Inr None)"
    "resolveUserFriendlyId m (CHR ''C'' # natToString (Suc k)) =
     (if k < length (not_important_urgent m) then Inr (Some (id' (not_important_urgent m ! k)))
      else Inr None)"
    "resolveUserFriendlyId m (CHR ''D'' # natToString (Suc k)) =
     (if k < length (not_important_not_urgent m)
      then Inr (Some (id' (not_important_not_urgent m ! k))) else Inr None)"
    using resolve_canonical[OF toUpperChar_letters(5) tab(1), of m k]
      resolve_canonical[OF toUpperChar_letters(6) tab(2), of m k]
      resolve_canonical[OF toUpperChar_letters(7) tab(3), of m k]
      resolve_canonical[OF toUpperChar_letters(8) tab(4), of m k]
    by simp_all
  have zero: "resolveUserFriendlyId m ''A0'' = Inr None" "resolveUserFriendlyId m ''B0'' = Inr None"
    "resolveUserFriendlyId m ''C0'' = Inr None" "resolveUserFriendlyId m ''D0'' = Inr None"
    using resolve_zero[OF toUpperChar_letters(5), of m] resolve_zero[OF toUpperChar_letters(6), of m]
      resolve_zero[OF toUpperChar_letters(7), of m] resolve_zero[OF toUpperChar_letters(8), of m]
    by simp_all
  from null item same resolve_letter_case[of m r] can zero tab key_map_dom
  show ?thesis by - (intro conjI; assumption)
qed

theorem resolve_failure_conditions_witness:
  "parseInt (drop 1 (toUpperCase ''b1'')) = Some 1 \<and> take 1 (toUpperCase ''b1'') = ''B'' \<and>
   resolveUserFriendlyId sampleMatrix ''b1'' = Inr (Some ''id-4'') \<and>
   parseInt (drop 1 (toUpperCase ''B2'')) = Some 2 \<and> take 1 (toUpperCase ''B2'') = ''B'' \<and>
   resolveUserFriendlyId sampleMatrix ''B2'' = Inr None \<and>
   parseInt (drop 1 (toUpperCase ''c1'')) = Some 1 \<and> take 1 (toUpperCase ''c1'') = ''C'' \<and>
   resolveUserFriendlyId sampleMatrix ''c1'' = Inr (Some ''id-5'') \<and>
   parseInt (drop 1 (toUpperCase ''D1'')) = Some 1 \<and> take 1 (toUpperCase ''D1'') = ''D'' \<and>
   resolveUserFriendlyId sampleMatrix ''D1'' = Inr (Some ''id-6'') \<and>
   parseInt (drop 1 (toUpperCase ''D3'')) = Some 3 \<and> take 1 (toUpperCase ''D3'') = ''D'' \<and>
   resolveUserFriendlyId sampleMatrix ''D3'' = Inr None \<and>
   parseInt (drop 1 (toUpperCase ''a3'')) = Some 3 \<and> take 1 (toUpperCase ''a3'') = ''A'' \<and>
   resolveUserFriendlyId sampleMatrix ''a3'' = Inr (Some ''id-3'') \<and>
   parseInt (drop 1 (toUpperCase ''a4'')) = Some 4 \<and>
   resolveUserFriendlyId sampleMatrix ''a4'' = Inr None \<and>
   take 1 (toUpperCase ''e1'') = ''E'' \<and>
   resolveUserFriendlyId sampleMatrix ''e1'' = Inr None"
proof -
  have p: "parseInt (drop 1 (toUpperCase ''b1'')) = Some 1"
    "parseInt (drop 1 (toUpperCase ''B2'')) = Some 2"
    "parseInt (drop 1 (toUpperCase ''c1'')) = Some 1"
    "parseInt (drop 1 (toUpperCase ''D1'')) = Some 1"
    "parseInt (drop 1 (toUpperCase ''D3'')) = Some 3"
    "parseInt (drop 1 (toUpperCase ''a3'')) = Some 3"
    "parseInt (drop 1 (toUpperCase ''a4'')) = Some 4"
    by code_simp+
  have l: "take 1 (toUpperCase ''b1'') = ''B''" "take 1 (toUpperCase ''B2'') = ''B''"
    "take 1 (toUpperCase ''c1'') = ''C''" "take 1 (toUpperCase ''D1'') = ''D''"
    "take 1 (toUpperCase ''D3'') = ''D''" "take 1 (toUpperCase ''a3'') = ''A''"
    "take 1 (toUpperCase ''a4'') = ''A''" "take 1 (toUpperCase ''e1'') = ''E''"
    by code_simp+
  have len: "length (important_urgent sampleMatrix) = 3"
    "length (important_not_urgent sampleMatrix) = 1"
    "length (not_important_urgent sampleMatrix) = 1"
    "length (not_important_not_urgent sampleMatrix) = 1"
    by (simp_all add: sampleMatrix_def)
  have it: "id' (important_not_urgent sampleMatrix ! nat (1 - 1)) = ''id-4''"
    "id' (not_important_urgent sampleMatrix ! nat (1 - 1)) = ''id-5''"
    "id' (not_important_not_urgent sampleMatrix ! nat (1 - 1)) = ''id-6''"
    "id' (important_urgent sampleMatrix ! nat (3 - 1)) = ''id-3''"
    by (simp_all add: sampleMatrix_def sampleTodo_def)
  from resolve_failure_conditions[of sampleMatrix "''b1''" "[]" 0, THEN conjunct2, THEN conjunct1] p(1) l(1) len it
  have r1: "resolveUserFriendlyId sampleMatrix ''b1'' = Inr (Some ''id-4'')" by simp
  from resolve_failure_conditions[of sampleMatrix "''B2''" "[]" 0, THEN conjunct1] p(2) l(2) len
  have r2: "resolveUserFriendlyId sampleMatrix ''B2'' = Inr None" by simp
  from resolve_failure_conditions[of sampleMatrix "''c1''" "[]" 0, THEN conjunct2, THEN conjunct1] p(3) l(3) len it
  have r3: "resolveUserFriendlyId sampleMatrix ''c1'' = Inr (Some ''id-5'')" by simp
  from resolve_failure_conditions[of sampleMatrix "''D1''" "[]" 0, THEN conjunct2, THEN conjunct1] p(4) l(4) len it
  have r4: "resolveUserFriendlyId sampleMatrix ''D1'' = Inr (Some ''id-6'')" by simp
  from resolve_failure_conditions[of sampleMatrix "''D3''" "[]" 0, THEN conjunct1] p(5) l(5) len
  have r5: "resolveUserFriendlyId sampleMatrix ''D3'' = Inr None" by simp
  from resolve_failure_conditions[of sampleMatrix "''a3''" "[]" 0, THEN conjunct2, THEN conjunct1] p(6) l(6) len it
  have r6: "resolveUserFriendlyId sampleMatrix ''a3'' = Inr (Some ''id-3'')" by simp
  from resolve_failure_conditions[of sampleMatrix "''a4''" "[]" 0, THEN conjunct1] p(7) l(7) len
  have r7: "resolveUserFriendlyId sampleMatrix ''a4'' = Inr None" by simp
  from resolve_failure_conditions[of sampleMatrix "''e1''" "[]" 0, THEN conjunct1] l(8)
  have r8: "resolveUserFriendlyId sampleMatrix ''e1'' = Inr None" by simp
  from p l r1 r2 r3 r4 r5 r6 r7 r8 show ?thesis by simp
qed

text \<open>
  C7. For every stored matrix and every identifier (an id, or a string of
  display shape) that resolves to no item of the four sequences, each of
  update, toggle and delete throws the not-found error and leaves the store
  exactly as it was: nothing is saved. For every other identifier each of
  them returns a matrix, and that matrix is what the store then holds.
\<close>

theorem not_found_leaves_store:
  assumes "todoFile st = Some (Json m)"
  shows "(resolvesToNoItem m todoId \<longrightarrow>
            updateTodo now st todoId u = (Inl (NotFound todoId), st) \<and>
            toggleTodo now st todoId = (Inl (NotFound todoId), st) \<and>
            deleteTodo now st todoId = (Inl (NotFound todoId), st)) \<and>
         (\<not> resolvesToNoItem m todoId \<longrightarrow>
            (\<exists>m1. updateTodo now st todoId u = (Inr m1, st\<lparr>todoFile := Some (Json m1)\<rparr>)) \<and>
            (\<exists>m1. toggleTodo now st todoId = (Inr m1, st\<lparr>todoFile := Some (Json m1)\<rparr>)) \<and>
            (\<exists>m1. deleteTodo now st todoId = (Inr m1, st\<lparr>todoFile := Some (Json m1)\<rparr>)))"
proof (intro conjI impI)
  assume no: "resolvesToNoItem m todoId"
  from resolvesToNoItem_cases[OF no]
  have cases: "resolveTodoId m todoId = Inl (NotFound todoId) \<or>
        (resolveTodoId m todoId = Inr todoId \<and>
         (\<forall>q. findIndex (\<lambda>t. id' t = todoId) (getq m q) = None))" .
  then show "updateTodo now st todoId u = (Inl (NotFound todoId), st)"
  proof (elim disjE conjE)
    assume "resolveTodoId m todoId = Inl (NotFound todoId)"
    then show ?thesis by (simp add: updateTodo_def load_json[OF assms])
  next
    assume r: "resolveTodoId m todoId = Inr todoId"
      and n: "\<forall>q. findIndex (\<lambda>t. id' t = todoId) (getq m q) = None"
    from n have "\<not> snd (foldl (\<lambda>s q. updateInQuadrant now todoId u q s) (m, False) quadrantOrder)"
      by (simp add: update_passes_found)
    with r show ?thesis
      by (simp add: updateTodo_def load_json[OF assms] case_prod_beta)
  qed
  from cases show "toggleTodo now st todoId = (Inl (NotFound todoId), st)"
  proof (elim disjE conjE)
    assume "resolveTodoId m todoId = Inl (NotFound todoId)"
    then show ?thesis by (simp add: toggleTodo_def load_json[OF assms])
  next
    assume r: "resolveTodoId m todoId = Inr todoId"
      and n: "\<forall>q. findIndex (\<lambda>t. id' t = todoId) (getq m q) = None"
    from n have "\<not> snd (foldl (\<lambda>s q. toggleInQuadrant now todoId q s) (m, False) quadrantOrder)"
      by (simp add: toggle_passes_found)
    with r show ?thesis
      by (simp add: toggleTodo_def load_json[OF assms] case_prod_beta)
  qed
  from cases show "deleteTodo now st todoId = (Inl (NotFound todoId), st)"
  proof (elim disjE conjE)
    assume "resolveTodoId m todoId = Inl (NotFound todoId)"
    then show ?thesis by (simp add: deleteTodo_def load_json[OF assms])
  next
    assume r: "resolveTodoId m todoId = Inr todoId"
      and n: "\<forall>q. findIndex (\<lambda>t. id' t = todoId) (getq m q) = None"
    from n have "\<not> snd (foldl (\<lambda>s q. deleteFromQuadrant todoId q s) (m, False) quadrantOrder)"
      by (simp add: delete_passes_found)
    with r show ?thesis
      by (simp add: deleteTodo_def load_json[OF assms] case_prod_beta)
  qed
next
  assume "\<not> resolvesToNoItem m todoId"
  from not_resolvesToNoItem[OF this] obtain uid q where
    r: "resolveTodoId m todoId = Inr uid" and h: "findIndex (\<lambda>t. id' t = uid) (getq m q) \<noteq> None"
    by blast
  show "\<exists>m1. updateTodo now st todoId u = (Inr m1, st\<lparr>todoFile := Some (Json m1)\<rparr>)"
    using updateTodo_found[OF assms r h, of now u] by blast
  show "\<exists>m1. toggleTodo now st todoId = (Inr m1, st\<lparr>todoFile := Some (Json m1)\<rparr>)"
    using toggleTodo_found[OF assms r h, of now] by blast
  show "\<exists>m1. deleteTodo now st todoId = (Inr m1, st\<lparr>todoFile := Some (Json m1)\<rparr>)"
    using deleteTodo_found[OF assms r h, of now] by blast
qed

theorem not_found_leaves_store_witness:
  "todoFile sampleStore = Some (Json sampleMatrix) \<and>
   resolvesToNoItem sampleMatrix ''B7'' \<and>
   updateTodo 9 sampleStore ''B7'' emptyUpdates = (Inl (NotFound ''B7''), sampleStore) \<and>
   toggleTodo 9 sampleStore ''B7'' = (Inl (NotFound ''B7''), sampleStore) \<and>
   deleteTodo 9 sampleStore ''B7'' = (Inl (NotFound ''B7''), sampleStore) \<and>
   resolvesToNoItem sampleMatrix ''id-404'' \<and>
   deleteTodo 9 sampleStore ''id-404'' = (Inl (NotFound ''id-404''), sampleStore) \<and>
   \<not> resolvesToNoItem sampleMatrix ''id-1'' \<and>
   (\<exists>m1. deleteTodo 9 sampleStore ''id-1'' = (Inr m1, sampleStore\<lparr>todoFile := Some (Json m1)\<rparr>))"
proof -
  have f: "todoFile sampleStore = Some (Json sampleMatrix)" by (simp add: sampleStore_def)
  have a: "resolvesToNoItem sampleMatrix ''B7''" by code_simp
  have b: "resolvesToNoItem sampleMatrix ''id-404''" by code_simp
  have c: "\<not> resolvesToNoItem sampleMatrix ''id-1''" by code_simp
  from not_found_leaves_store[OF f, of "''B7''" 9 emptyUpdates]
       not_found_leaves_store[OF f, of "''id-404''" 9 emptyUpdates]
       not_found_leaves_store[OF f, of "''id-1''" 9 emptyUpdates] f a b c
  show ?thesis by blast
qed

text \<open>
  C8. \<open>createTodo\<close> has no failing path: for every title and options it returns
  an item whose title is the trimmed title (the title without the white space
  at its two ends), also when nothing is left after trimming; where the
  options leave them out, priority is \<open>low\<close>, urgency is \<open>not-urgent\<close>, completed
  is false, and tags and links are empty.
\<close>

theorem createTodo_trims_and_defaults:
  "title (createTodo now uuid ttl opts) = trim ttl \<and>
   (\<exists>a b. ttl = a @ trim ttl @ b \<and> list_all isWhiteSpace a \<and> list_all isWhiteSpace b) \<and>
   (trim ttl \<noteq> [] \<longrightarrow> \<not> isWhiteSpace (hd (trim ttl)) \<and> \<not> isWhiteSpace (last (trim ttl))) \<and>
   (trim ttl = [] \<longleftrightarrow> list_all isWhiteSpace ttl) \<and>
   (o_priority opts = None \<longrightarrow> priority (createTodo now uuid ttl opts) = ''low'') \<and>
   (o_urgency opts = None \<longrightarrow> urgency (createTodo now uuid ttl opts) = ''not-urgent'') \<and>
   (o_completed opts = None \<longrightarrow> completed (createTodo now uuid ttl opts) = False) \<and>
   (o_tags opts = None \<longrightarrow> tags (createTodo now uuid ttl opts) = []) \<and>
   (o_links opts = None \<longrightarrow> links (createTodo now uuid ttl opts) = [])"
  using trim_decomp[of ttl] trim_ends[of ttl] trim_Nil_iff[of ttl]
  by (simp add: createTodo_def orElse_def)

theorem createTodo_trims_and_defaults_witness:
  "trim ''  call Bob '' = ''call Bob'' \<and>
   createTodo 3 ''u-1'' ''  call Bob '' emptyOptions =
     \<lparr> id' = ''u-1'', title = ''call Bob'', description = [], priority = ''low'',
       urgency = ''not-urgent'', completed = False, createdAt = 3, completedAt = None,
       tags = [], links = [], metadata = [] \<rparr>"
proof -
  have t: "trim ''  call Bob '' = ''call Bob''" by code_simp
  have o: "o_priority emptyOptions = None" "o_urgency emptyOptions = None"
    "o_completed emptyOptions = None" "o_tags emptyOptions = None" "o_links emptyOptions = None"
    by (simp_all add: emptyOptions_def)
  from createTodo_trims_and_defaults[of 3 "''u-1''" "''  call Bob ''" emptyOptions] t o
  have "title (createTodo 3 ''u-1'' ''  call Bob '' emptyOptions) = ''call Bob''"
    "priority (createTodo 3 ''u-1'' ''  call Bob '' emptyOptions) = ''low''"
    "urgency (createTodo 3 ''u-1'' ''  call Bob '' emptyOptions) = ''not-urgent''"
    "completed (createTodo 3 ''u-1'' ''  call Bob '' emptyOptions) = False"
    "tags (createTodo 3 ''u-1'' ''  call Bob '' emptyOptions) = []"
    "links (createTodo 3 ''u-1'' ''  call Bob '' emptyOptions) = []"
    by simp_all
  moreover have "id' (createTodo 3 ''u-1'' ''  call Bob '' emptyOptions) = ''u-1''"
    "description (createTodo 3 ''u-1'' ''  call Bob '' emptyOptions) = []"
    "createdAt (createTodo 3 ''u-1'' ''  call Bob '' emptyOptions) = 3"
    "completedAt (createTodo 3 ''u-1'' ''  call Bob '' emptyOptions) = None"
    "metadata (createTodo 3 ''u-1'' ''  call Bob '' emptyOptions) = []"
    by (simp_all add: createTodo_def emptyOptions_def orElse_def)
  ultimately show ?thesis using t by (intro conjI todo.equality) simp_all
qed

theorem createTodo_empty_title_counterexample:
  "trim ''   '' = [] \<and>
   createTodo 3 ''u-1'' ''   '' emptyOptions =
     \<lparr> id' = ''u-1'', title = [], description = [], priority = ''low'',
       urgency = ''not-urgent'', completed = False, createdAt = 3, completedAt = None,
       tags = [], links = [], metadata = [] \<rparr>"
  by (simp add: createTodo_def emptyOptions_def orElse_def trim_def isWhiteSpace_def)

text \<open>
  C9. When the file exists and its text does not parse, \<open>loadTodoMatrix\<close> returns
  the default matrix (four empty sequences, zeroed statistics), overwrites the
  file with that default, so that the unreadable text is gone, and logs a
  warning; a file that holds a matrix is returned as parsed and the store is
  left as it was.
\<close>

theorem load_malformed_overwrites:
  "(todoFile st = Some (Garbage txt) \<longrightarrow>
      loadTodoMatrix now st =
        (defaultMatrix now,
         st\<lparr>todoFile := Some (Json (defaultMatrix now)),
            warnings := warnings st @ [loadWarning]\<rparr>)) \<and>
   (todoFile st = Some (Json m) \<longrightarrow> loadTodoMatrix now st = (m, st)) \<and>
   allTodos (defaultMatrix now) = [] \<and>
   stats (defaultMatrix now) = \<lparr> total_s = 0, completed_s = 0, active_s = 0 \<rparr>"
  by (simp add: loadTodoMatrix_def defaultMatrix_def allTodos_def)

theorem load_malformed_overwrites_witness:
  "loadTodoMatrix 9 \<lparr> todoFile = Some (Garbage ''{ not json''), warnings = [] \<rparr> =
     (defaultMatrix 9, \<lparr> todoFile = Some (Json (defaultMatrix 9)), warnings = [loadWarning] \<rparr>) \<and>
   loadTodoMatrix 9 sampleStore = (sampleMatrix, sampleStore)"
  using load_malformed_overwrites
          [of "\<lparr> todoFile = Some (Garbage ''{ not json''), warnings = [] \<rparr>" "''{ not json''" 9]
        load_malformed_overwrites [of sampleStore _ 9 sampleMatrix]
  by (simp add: sampleStore_def)

text \<open>
  C10. For every string that passes the shape test of \<open>isUserFriendlyId\<close> and
  every matrix, \<open>resolveUserFriendlyId\<close> returns \<open>null\<close> or the id of an item
  that is in the matrix: the read past the end of the sequence, and the
  \<open>TypeError\<close> it would raise, cannot happen. So the block that guards the
  resolver with the shape test, and with it update, toggle and delete, never
  throws that error, whatever the identifier.
\<close>

theorem resolve_total_under_shape_guard:
  assumes "isUserFriendlyId s"
  shows "(resolveUserFriendlyId m s = Inr None \<or>
          (\<exists>q i. i < length (getq m q) \<and>
             resolveUserFriendlyId m s = Inr (Some (id' (getq m q ! i))))) \<and>
         resolveTodoId m todoId \<noteq> Inl TypeError \<and>
         fst (updateTodo now st todoId u) \<noteq> Inl TypeError \<and>
         fst (toggleTodo now st todoId) \<noteq> Inl TypeError \<and>
         fst (deleteTodo now st todoId) \<noteq> Inl TypeError"
proof -
  have "fst (updateTodo now st todoId u) \<noteq> Inl TypeError"
    unfolding updateTodo_def by (rule store_op_no_TypeError) (rule resolveTodoId_no_TypeError)
  moreover have "fst (toggleTodo now st todoId) \<noteq> Inl TypeError"
    unfolding toggleTodo_def by (rule store_op_no_TypeError) (rule resolveTodoId_no_TypeError)
  moreover have "fst (deleteTodo now st todoId) \<noteq> Inl TypeError"
    unfolding deleteTodo_def by (rule store_op_no_TypeError) (rule resolveTodoId_no_TypeError)
  ultimately show ?thesis
    using resolve_shape_cases[OF assms, of m] resolveTodoId_no_TypeError[of m todoId] by blast
qed

theorem resolve_total_under_shape_guard_witness:
  "isUserFriendlyId ''c1'' \<and>
   resolveUserFriendlyId sampleMatrix ''c1'' = Inr (Some ''id-5'') \<and>
   isUserFriendlyId ''C2'' \<and>
   resolveUserFriendlyId sampleMatrix ''C2'' = Inr None"
proof -
  have h: "isUserFriendlyId ''c1''" "isUserFriendlyId ''C2''" by code_simp+
  have e: "resolveUserFriendlyId sampleMatrix ''c1'' = Inr (Some ''id-5'')"
    "resolveUserFriendlyId sampleMatrix ''C2'' = Inr None" by code_simp+
  from resolve_total_under_shape_guard[OF h(1), of sampleMatrix]
       resolve_total_under_shape_guard[OF h(2), of sampleMatrix] h e
  show ?thesis by simp
qed

end
